theory Spec2Isabelle
  imports Complex_Main "HOL-Library.Word"
begin

section \<open>The C++ standard library: numbers as text\<close>

text \<open>
  The code generator prints three kinds of numbers: container sizes and indices
  (\<^verbatim>\<open>size_t\<close>), \<^verbatim>\<open>int\<close> values, and \<^verbatim>\<open>double\<close> values. A \<^verbatim>\<open>double\<close> is printed in two
  different ways by the source: \<^verbatim>\<open>std::to_string(double)\<close>, which is \<^verbatim>\<open>printf("%f")\<close>, and
  \<^verbatim>\<open>ostream << double\<close> with the stream's default flags, which is \<^verbatim>\<open>printf("%g")\<close> with
  precision 6. Both are modelled in the "C" locale.
\<close>

subsection \<open>Decimal digits of naturals and integers\<close>

definition digit_char :: "nat \<Rightarrow> char" where
  "digit_char d = ''0123456789'' ! d"

fun dec_digits :: "nat \<Rightarrow> string" where
  "dec_digits n =
     (if n < 10 then [digit_char n] else dec_digits (n div 10) @ [digit_char (n mod 10)])"

declare dec_digits.simps [simp del]

text \<open>\<^verbatim>\<open>std::to_string(size_t)\<close> and \<^verbatim>\<open>ostream << size_t\<close>.\<close>

definition to_string_size_t :: "nat \<Rightarrow> string" where
  "to_string_size_t n = dec_digits n"

text \<open>\<^verbatim>\<open>ostream << int\<close>.\<close>

definition put_int :: "int \<Rightarrow> string" where
  "put_int i = (if i < 0 then ''-'' @ dec_digits (nat (- i)) else dec_digits (nat i))"

text \<open>A natural number printed with at least \<open>k\<close> digits, zero-padded on the left.\<close>

definition pad_digits :: "nat \<Rightarrow> nat \<Rightarrow> string" where
  "pad_digits k n = replicate (k - length (dec_digits n)) (CHR ''0'') @ dec_digits n"

subsection \<open>IEEE 754 binary64\<close>

text \<open>
  A \<^verbatim>\<open>double\<close> is its 64-bit pattern: bit 63 is the sign, bits 62..52 the biased exponent,
  bits 51..0 the fraction.
\<close>

type_synonym double = "64 word"

definition sign_bit :: "double \<Rightarrow> bool" where
  "sign_bit d = bit d 63"

definition biased_exponent :: "double \<Rightarrow> nat" where
  "biased_exponent d = unat (take_bit 11 (drop_bit 52 d))"

definition fraction :: "double \<Rightarrow> nat" where
  "fraction d = unat (take_bit 52 d)"

definition is_nan :: "double \<Rightarrow> bool" where
  "is_nan d = (biased_exponent d = 2047 \<and> fraction d \<noteq> 0)"

definition is_inf :: "double \<Rightarrow> bool" where
  "is_inf d = (biased_exponent d = 2047 \<and> fraction d = 0)"

definition is_finite :: "double \<Rightarrow> bool" where
  "is_finite d = (biased_exponent d \<noteq> 2047)"

text \<open>
  The absolute value of a finite double as an exact fraction \<open>(n, dn)\<close> of naturals, meaning
  \<open>n / dn\<close>: subnormals are \<open>f \<cdot> 2\<^sup>-\<^sup>1\<^sup>0\<^sup>7\<^sup>4\<close>, normal numbers \<open>(2\<^sup>5\<^sup>2 + f) \<cdot> 2\<^bsup>e - 1075\<^esup>\<close>.
\<close>

definition magnitude :: "double \<Rightarrow> nat \<times> nat" where
  "magnitude d =
     (let e = biased_exponent d; f = fraction d
      in if e = 0 then (f, 2 ^ 1074)
         else if 1075 \<le> e then ((2 ^ 52 + f) * 2 ^ (e - 1075), 1)
         else (2 ^ 52 + f, 2 ^ (1075 - e)))"

text \<open>The exact value of a finite double.\<close>

definition valof :: "double \<Rightarrow> rat" where
  "valof d =
     (case magnitude d of (n, dn) \<Rightarrow>
        (if sign_bit d then - (of_nat n / of_nat dn) else of_nat n / of_nat dn))"

text \<open>The constants that the source and the claims name.\<close>

definition double_one :: double where
  "double_one = 0x3FF0000000000000"

definition double_two :: double where
  "double_two = 0x4000000000000000"

definition double_three :: double where
  "double_three = 0x4008000000000000"

text \<open>
  The C++ comparison \<^verbatim>\<open>a == b\<close> on doubles: false when either side is a NaN, and the two
  zeros are equal.
\<close>

definition double_eq :: "double \<Rightarrow> double \<Rightarrow> bool" where
  "double_eq a b =
     (\<not> is_nan a \<and> \<not> is_nan b \<and>
      (a = b \<or> (fst (magnitude a) = 0 \<and> fst (magnitude b) = 0 \<and> is_finite a \<and> is_finite b)))"

subsection \<open>\<^verbatim>\<open>std::to_string(double)\<close>: fixed notation, six digits after the point\<close>

text \<open>
  \<open>round_half_even n d\<close> is the fraction \<open>n / d\<close> rounded to the nearest natural number,
  ties to even: the library converts the exact binary value in the default rounding mode.
\<close>

definition round_half_even :: "nat \<Rightarrow> nat \<Rightarrow> nat" where
  "round_half_even n d =
     (let q = n div d; r = n mod d
      in if 2 * r < d then q
         else if d < 2 * r then q + 1
         else if even q then q else q + 1)"

definition fixed_digits :: "nat \<Rightarrow> nat \<Rightarrow> string" where
  "fixed_digits n d =
     (let q = round_half_even (n * 10 ^ 6) d
      in dec_digits (q div 10 ^ 6) @ ''.'' @ pad_digits 6 (q mod 10 ^ 6))"

definition to_string_double :: "double \<Rightarrow> string" where
  "to_string_double d =
     (if sign_bit d then ''-'' else []) @
     (if is_nan d then ''nan''
      else if is_inf d then ''inf''
      else (case magnitude d of (n, dn) \<Rightarrow> fixed_digits n dn))"

subsection \<open>\<^verbatim>\<open>ostream << double\<close>: general notation, six significant digits\<close>

text \<open>
  For \<open>0 < n < d\<close>, \<open>neg_exp10 n d 1\<close> is the least \<open>k \<ge> 1\<close> with \<open>d \<le> n \<cdot> 10\<^sup>k\<close>, so that
  the decimal exponent of \<open>n / d\<close> is \<open>- k\<close>.
\<close>

function neg_exp10 :: "nat \<Rightarrow> nat \<Rightarrow> nat \<Rightarrow> nat" where
  "neg_exp10 n d k = (if n = 0 \<or> d \<le> n * 10 ^ k then k else neg_exp10 n d (Suc k))"
  by pat_completeness auto
termination
proof (relation "measure (\<lambda>(n, d, k). d - n * 10 ^ k)")
  fix n d k :: nat
  assume "\<not> (n = 0 \<or> d \<le> n * 10 ^ k)"
  then have "0 < n * 10 ^ k" and "n * 10 ^ k < d" by auto
  then have "d - n * 10 ^ Suc k < d - n * 10 ^ k" by (intro diff_less_mono2) auto
  then show "((n, d, Suc k), (n, d, k)) \<in> measure (\<lambda>(n, d, k). d - n * 10 ^ k)" by simp
qed simp

declare neg_exp10.simps [simp del]

definition exp10 :: "nat \<Rightarrow> nat \<Rightarrow> int" where
  "exp10 n d =
     (if d \<le> n then int (length (dec_digits (n div d))) - 1 else - int (neg_exp10 n d 1))"

definition strip_zeros :: "string \<Rightarrow> string" where
  "strip_zeros s = rev (dropWhile (\<lambda>c. c = CHR ''0'') (rev s))"

definition with_point :: "string \<Rightarrow> string \<Rightarrow> string" where
  "with_point ip fp = (if strip_zeros fp = [] then ip else ip @ ''.'' @ strip_zeros fp)"

text \<open>
  The value is rounded to six significant digits \<open>m\<close> with decimal exponent \<open>x\<close>; for
  \<open>-4 \<le> x < 6\<close> the digits are written in fixed notation, otherwise in scientific notation
  with an exponent of at least two digits; trailing zeros of the fractional part are removed,
  and the point with them when nothing is left.
\<close>

definition general_digits :: "nat \<Rightarrow> nat \<Rightarrow> string" where
  "general_digits n d =
     (if n = 0 then ''0''
      else
        (let e0 = exp10 n d;
             m = (if e0 \<le> 5 then round_half_even (n * 10 ^ nat (5 - e0)) d
                  else round_half_even n (d * 10 ^ nat (e0 - 5)));
             x = (if m = 10 ^ 6 then e0 + 1 else e0);
             ds = dec_digits (if m = 10 ^ 6 then 10 ^ 5 else m)
         in if x < - 4 \<or> 6 \<le> x
            then with_point (take 1 ds) (drop 1 ds) @ ''e'' @ (if x < 0 then ''-'' else ''+'') @
                 pad_digits 2 (nat \<bar>x\<bar>)
            else if 0 \<le> x then with_point (take (nat x + 1) ds) (drop (nat x + 1) ds)
            else with_point ''0'' (replicate (nat (- x - 1)) (CHR ''0'') @ ds)))"

definition put_double :: "double \<Rightarrow> string" where
  "put_double d =
     (if sign_bit d then ''-'' else []) @
     (if is_nan d then ''nan''
      else if is_inf d then ''inf''
      else (case magnitude d of (n, dn) \<Rightarrow> general_digits n dn))"

section \<open>Symbolic expressions\<close>

text \<open>
  The expression library is used through its accessors only. A variable is read through
  \<^verbatim>\<open>get_id()\<close>; an expression is one of the kinds below. An addition carries its constant and
  its terms \<open>(e\<^sub>i, c\<^sub>i)\<close>, a multiplication its constant and its factors \<open>(base\<^sub>i, exponent\<^sub>i)\<close>,
  both in the iteration order of the library's ordered map. The kinds \<open>Pow\<close>, \<open>Min\<close> and \<open>Max\<close>
  carry the suffix \<open>E\<close> here. The condition of an if-then-else belongs to the formula library
  and is not read by any code of the generator; the node is kept with its two branches.
\<close>

datatype Variable = Variable (get_id: nat)

datatype Expression =
    Var Variable
  | Constant double
  | Addition double "(Expression \<times> double) list"
  | Multiplication double "(Expression \<times> Expression) list"
  | Division Expression Expression
  | PowE Expression Expression
  | Abs Expression
  | Log Expression
  | Exp Expression
  | Sqrt Expression
  | Sin Expression
  | Cos Expression
  | Tan Expression
  | Asin Expression
  | Acos Expression
  | Atan Expression
  | Atan2 Expression Expression
  | Sinh Expression
  | Cosh Expression
  | Tanh Expression
  | MinE Expression Expression
  | MaxE Expression Expression
  | Ceil Expression
  | Floor Expression
  | IfThenElse Expression Expression
  | UninterpretedFunction string "Expression list"

text \<open>
  Modelled from the spec: \<^verbatim>\<open>is_one\<close> of the expression library, which is not part of the
  sources at hand: the expression is the literal constant 1.
\<close>

fun is_one :: "Expression \<Rightarrow> bool" where
  "is_one (Constant c) = double_eq c double_one"
| "is_one _ = False"

text \<open>
  The direct sub-expressions of a node, and the sub-expression relation they generate:
  \<open>subexpr s e\<close> holds when \<open>s\<close> is \<open>e\<close> or occurs inside \<open>e\<close>.
\<close>

fun children :: "Expression \<Rightarrow> Expression list" where
  "children (Var v) = []"
| "children (Constant c) = []"
| "children (Addition c expr_to_coeff_map) = map fst expr_to_coeff_map"
| "children (Multiplication c base_to_exponent_map) =
     concat (map (\<lambda>(b, e). [b, e]) base_to_exponent_map)"
| "children (Division e1 e2) = [e1, e2]"
| "children (PowE e1 e2) = [e1, e2]"
| "children (Abs e) = [e]"
| "children (Log e) = [e]"
| "children (Exp e) = [e]"
| "children (Sqrt e) = [e]"
| "children (Sin e) = [e]"
| "children (Cos e) = [e]"
| "children (Tan e) = [e]"
| "children (Asin e) = [e]"
| "children (Acos e) = [e]"
| "children (Atan e) = [e]"
| "children (Atan2 e1 e2) = [e1, e2]"
| "children (Sinh e) = [e]"
| "children (Cosh e) = [e]"
| "children (Tanh e) = [e]"
| "children (MinE e1 e2) = [e1, e2]"
| "children (MaxE e1 e2) = [e1, e2]"
| "children (Ceil e) = [e]"
| "children (Floor e) = [e]"
| "children (IfThenElse e1 e2) = [e1, e2]"
| "children (UninterpretedFunction name args) = args"

inductive subexpr :: "Expression \<Rightarrow> Expression \<Rightarrow> bool" where
  subexpr_self: "subexpr e e"
| subexpr_child: "c \<in> set (children e) \<Longrightarrow> subexpr s c \<Longrightarrow> subexpr s e"

fun unsupported_node :: "Expression \<Rightarrow> bool" where
  "unsupported_node (IfThenElse e1 e2) = True"
| "unsupported_node (UninterpretedFunction name args) = True"
| "unsupported_node _ = False"

definition contains_unsupported :: "Expression \<Rightarrow> bool" where
  "contains_unsupported e = (\<exists>s. subexpr s e \<and> unsupported_node s)"

section \<open>The visitor\<close>

datatype error = runtime_error string | out_of_bounds_read

text \<open>The three exceptions that the visitor throws.\<close>

definition variable_not_found :: error where
  "variable_not_found = runtime_error ''Variable index is not found.''"

definition if_then_else_unsupported :: error where
  "if_then_else_unsupported =
     runtime_error ''Codegen does not support if-then-else expressions.''"

definition uninterpreted_function_unsupported :: error where
  "uninterpreted_function_unsupported =
     runtime_error ''Codegen does not support uninterpreted functions.''"

type_synonym IdToIndexMap = "nat \<rightharpoonup> nat"

text \<open>
  C++ leaves open in which order the two operands of \<^verbatim>\<open>+\<close> are evaluated. In the chains of
  \<^verbatim>\<open>+\<close> of \<^verbatim>\<open>VisitBinary\<close> and \<^verbatim>\<open>VisitDivision\<close> both operands call the visitor, and the order
  decides which exception leaves the call when both throw; it is a parameter of the model
  (compilers that evaluate the arguments of a call from the right give \<open>RightFirst\<close>). The
  operands of a chain of \<^verbatim>\<open><<\<close> are evaluated from left to right, as C++17 fixes it: what
  stands to the left of a call of the visitor has reached the stream when the call throws.
\<close>

datatype operand_order = LeftFirst | RightFirst

definition eval2 :: "operand_order \<Rightarrow> error + 'a \<Rightarrow> error + 'b \<Rightarrow> error + ('a \<times> 'b)" where
  "eval2 ord r1 r2 =
     (case ord of
        LeftFirst \<Rightarrow>
          (case r1 of Inl err \<Rightarrow> Inl err
           | Inr a \<Rightarrow> (case r2 of Inl err \<Rightarrow> Inl err | Inr b \<Rightarrow> Inr (a, b)))
      | RightFirst \<Rightarrow>
          (case r2 of Inl err \<Rightarrow> Inl err
           | Inr b \<Rightarrow> (case r1 of Inl err \<Rightarrow> Inl err | Inr a \<Rightarrow> Inr (a, b))))"

definition VisitVariable :: "IdToIndexMap \<Rightarrow> Variable \<Rightarrow> error + string" where
  "VisitVariable id_to_idx_map v =
     (case id_to_idx_map (get_id v) of
        None \<Rightarrow> Inl variable_not_found
      | Some idx \<Rightarrow> Inr (''p['' @ to_string_size_t idx @ '']''))"

definition VisitConstant :: "double \<Rightarrow> error + string" where
  "VisitConstant c = Inr (to_string_double c)"

text \<open>
  \<^verbatim>\<open>VisitUnary\<close>, \<^verbatim>\<open>VisitBinary\<close> and \<^verbatim>\<open>VisitDivision\<close> take the results of the visitor's calls
  on the arguments.
\<close>

definition VisitUnary :: "string \<Rightarrow> error + string \<Rightarrow> error + string" where
  "VisitUnary f r = (case r of Inl err \<Rightarrow> Inl err | Inr s \<Rightarrow> Inr (f @ ''('' @ s @ '')''))"

definition VisitBinary ::
  "operand_order \<Rightarrow> string \<Rightarrow> error + string \<Rightarrow> error + string \<Rightarrow> error + string" where
  "VisitBinary ord f r1 r2 =
     (case eval2 ord r1 r2 of
        Inl err \<Rightarrow> Inl err
      | Inr (s1, s2) \<Rightarrow> Inr (f @ ''('' @ s1 @ '', '' @ s2 @ '')''))"

definition VisitDivision ::
  "operand_order \<Rightarrow> error + string \<Rightarrow> error + string \<Rightarrow> error + string" where
  "VisitDivision ord r1 r2 =
     (case eval2 ord r1 r2 of
        Inl err \<Rightarrow> Inl err
      | Inr (s1, s2) \<Rightarrow> Inr (''('' @ s1 @ '' / '' @ s2 @ '')''))"

text \<open>
  \<^verbatim>\<open>CodeGenVisitor::CodeGen\<close> dispatches on the kind. The loops of \<^verbatim>\<open>VisitAddition\<close> and
  \<^verbatim>\<open>VisitMultiplication\<close> carry the text written to the local stream so far.
\<close>

function CodeGenVisitor_CodeGen ::
    "operand_order \<Rightarrow> IdToIndexMap \<Rightarrow> Expression \<Rightarrow> error + string"
  and VisitAddition_loop ::
    "operand_order \<Rightarrow> IdToIndexMap \<Rightarrow> (Expression \<times> double) list \<Rightarrow> string \<Rightarrow> error + string"
  and VisitMultiplication_loop ::
    "operand_order \<Rightarrow> IdToIndexMap \<Rightarrow> (Expression \<times> Expression) list \<Rightarrow> string \<Rightarrow> error + string"
where
  "CodeGenVisitor_CodeGen ord m (Var v) = VisitVariable m v"
| "CodeGenVisitor_CodeGen ord m (Constant c) = VisitConstant c"
| "CodeGenVisitor_CodeGen ord m (Addition c expr_to_coeff_map) =
     (case VisitAddition_loop ord m expr_to_coeff_map (''('' @ put_double c) of
        Inl err \<Rightarrow> Inl err
      | Inr oss \<Rightarrow> Inr (oss @ '')''))"
| "CodeGenVisitor_CodeGen ord m (Multiplication c base_to_exponent_map) =
     (case VisitMultiplication_loop ord m base_to_exponent_map (''('' @ put_double c) of
        Inl err \<Rightarrow> Inl err
      | Inr oss \<Rightarrow> Inr (oss @ '')''))"
| "CodeGenVisitor_CodeGen ord m (Division e1 e2) =
     VisitDivision ord (CodeGenVisitor_CodeGen ord m e1) (CodeGenVisitor_CodeGen ord m e2)"
| "CodeGenVisitor_CodeGen ord m (PowE e1 e2) =
     VisitBinary ord ''pow'' (CodeGenVisitor_CodeGen ord m e1) (CodeGenVisitor_CodeGen ord m e2)"
| "CodeGenVisitor_CodeGen ord m (Abs e) = VisitUnary ''fabs'' (CodeGenVisitor_CodeGen ord m e)"
| "CodeGenVisitor_CodeGen ord m (Log e) = VisitUnary ''log'' (CodeGenVisitor_CodeGen ord m e)"
| "CodeGenVisitor_CodeGen ord m (Exp e) = VisitUnary ''exp'' (CodeGenVisitor_CodeGen ord m e)"
| "CodeGenVisitor_CodeGen ord m (Sqrt e) = VisitUnary ''sqrt'' (CodeGenVisitor_CodeGen ord m e)"
| "CodeGenVisitor_CodeGen ord m (Sin e) = VisitUnary ''sin'' (CodeGenVisitor_CodeGen ord m e)"
| "CodeGenVisitor_CodeGen ord m (Cos e) = VisitUnary ''cos'' (CodeGenVisitor_CodeGen ord m e)"
| "CodeGenVisitor_CodeGen ord m (Tan e) = VisitUnary ''tan'' (CodeGenVisitor_CodeGen ord m e)"
| "CodeGenVisitor_CodeGen ord m (Asin e) = VisitUnary ''asin'' (CodeGenVisitor_CodeGen ord m e)"
| "CodeGenVisitor_CodeGen ord m (Acos e) = VisitUnary ''acos'' (CodeGenVisitor_CodeGen ord m e)"
| "CodeGenVisitor_CodeGen ord m (Atan e) = VisitUnary ''atan'' (CodeGenVisitor_CodeGen ord m e)"
| "CodeGenVisitor_CodeGen ord m (Atan2 e1 e2) =
     VisitBinary ord ''atan2'' (CodeGenVisitor_CodeGen ord m e1) (CodeGenVisitor_CodeGen ord m e2)"
| "CodeGenVisitor_CodeGen ord m (Sinh e) = VisitUnary ''sinh'' (CodeGenVisitor_CodeGen ord m e)"
| "CodeGenVisitor_CodeGen ord m (Cosh e) = VisitUnary ''cosh'' (CodeGenVisitor_CodeGen ord m e)"
| "CodeGenVisitor_CodeGen ord m (Tanh e) = VisitUnary ''tanh'' (CodeGenVisitor_CodeGen ord m e)"
| "CodeGenVisitor_CodeGen ord m (MinE e1 e2) =
     VisitBinary ord ''fmin'' (CodeGenVisitor_CodeGen ord m e1) (CodeGenVisitor_CodeGen ord m e2)"
| "CodeGenVisitor_CodeGen ord m (MaxE e1 e2) =
     VisitBinary ord ''fmax'' (CodeGenVisitor_CodeGen ord m e1) (CodeGenVisitor_CodeGen ord m e2)"
| "CodeGenVisitor_CodeGen ord m (Ceil e) = VisitUnary ''ceil'' (CodeGenVisitor_CodeGen ord m e)"
| "CodeGenVisitor_CodeGen ord m (Floor e) = VisitUnary ''floor'' (CodeGenVisitor_CodeGen ord m e)"
| "CodeGenVisitor_CodeGen ord m (IfThenElse e1 e2) = Inl if_then_else_unsupported"
| "CodeGenVisitor_CodeGen ord m (UninterpretedFunction name args) =
     Inl uninterpreted_function_unsupported"
| "VisitAddition_loop ord m [] oss = Inr oss"
| "VisitAddition_loop ord m ((e_i, c_i) # items) oss =
     (if double_eq c_i double_one
      then (case CodeGenVisitor_CodeGen ord m e_i of
              Inl err \<Rightarrow> Inl err
            | Inr s \<Rightarrow> VisitAddition_loop ord m items (oss @ '' + '' @ s))
      else (case CodeGenVisitor_CodeGen ord m e_i of
              Inl err \<Rightarrow> Inl err
            | Inr s \<Rightarrow>
                VisitAddition_loop ord m items
                  (oss @ '' + '' @ ''('' @ put_double c_i @ '' * '' @ s @ '')'')))"
| "VisitMultiplication_loop ord m [] oss = Inr oss"
| "VisitMultiplication_loop ord m ((e_1, e_2) # items) oss =
     (if is_one e_2
      then (case CodeGenVisitor_CodeGen ord m e_1 of
              Inl err \<Rightarrow> Inl err
            | Inr s \<Rightarrow> VisitMultiplication_loop ord m items (oss @ '' * '' @ s))
      else (case CodeGenVisitor_CodeGen ord m e_1 of
              Inl err \<Rightarrow> Inl err
            | Inr s1 \<Rightarrow>
                (case CodeGenVisitor_CodeGen ord m e_2 of
                   Inl err \<Rightarrow> Inl err
                 | Inr s2 \<Rightarrow>
                     VisitMultiplication_loop ord m items
                       (oss @ '' * '' @ ''pow('' @ s1 @ '', '' @ s2 @ '')''))))"
  by pat_completeness auto
termination
  by (relation "measure (\<lambda>x. case x of
         Inl (ord, m, e) \<Rightarrow> size e
       | Inr (Inl (ord, m, items, oss)) \<Rightarrow> size_list (size_prod size (\<lambda>c. 0)) items
       | Inr (Inr (ord, m, items, oss)) \<Rightarrow> size_list (size_prod size size) items)") auto

section \<open>The scalar emitter\<close>

text \<open>
  \<^verbatim>\<open>unordered_map::emplace\<close> inserts only when the key is not yet present.
\<close>

definition emplace :: "IdToIndexMap \<Rightarrow> nat \<Rightarrow> nat \<Rightarrow> IdToIndexMap" where
  "emplace m k v = (case m k of None \<Rightarrow> m(k \<mapsto> v) | Some old \<Rightarrow> m)"

text \<open>The loop that fills the map from \<^verbatim>\<open>Variable::Id\<close> to the index in \<^verbatim>\<open>parameters\<close>.\<close>

function id_to_idx_loop :: "Variable list \<Rightarrow> nat \<Rightarrow> IdToIndexMap \<Rightarrow> IdToIndexMap" where
  "id_to_idx_loop parameters i id_to_idx_map =
     (if i < length parameters
      then id_to_idx_loop parameters (Suc i) (emplace id_to_idx_map (get_id (parameters ! i)) i)
      else id_to_idx_map)"
  by pat_completeness auto
termination
  by (relation "measure (\<lambda>(parameters, i, m). length parameters - i)") auto

declare id_to_idx_loop.simps [simp del]

definition build_id_to_idx_map :: "Variable list \<Rightarrow> IdToIndexMap" where
  "build_id_to_idx_map parameters = id_to_idx_loop parameters 0 Map.empty"

text \<open>The record type and the accessor that the scalar emitter appends.\<close>

definition scalar_meta :: "string \<Rightarrow> nat \<Rightarrow> string" where
  "scalar_meta function_name parameters_size =
     ''typedef struct {\<newline>'' @
     ''    /* p: input, vector */\<newline>'' @
     ''    struct { int size; } p;\<newline>'' @
     ''} '' @ function_name @ ''_meta_t;\<newline>'' @
     function_name @ ''_meta_t '' @ function_name @ ''_meta() { return {{'' @
     to_string_size_t parameters_size @ ''}}; }\<newline>''"

text \<open>
  \<^verbatim>\<open>CodeGen(function_name, parameters, e)\<close>. The stream is local: when the visitor throws,
  the exception leaves the function and no text is returned.
\<close>

definition CodeGen :: "operand_order \<Rightarrow> string \<Rightarrow> Variable list \<Rightarrow> Expression \<Rightarrow> error + string" where
  "CodeGen ord function_name parameters e =
     (let oss = ''double '' @ function_name @ ''(const double* p) {\<newline>'';
          id_to_idx_map = build_id_to_idx_map parameters
      in case CodeGenVisitor_CodeGen ord id_to_idx_map e of
           Inl err \<Rightarrow> Inl err
         | Inr s \<Rightarrow>
             Inr (oss @ ''    return '' @ s @ '';\<newline>'' @ ''}\<newline>'' @
                  scalar_meta function_name (length parameters)))"

section \<open>The batch emitter\<close>

text \<open>
  \<^verbatim>\<open>internal::CodeGenData\<close> writes to the caller's stream \<open>os\<close>, modelled by the text it holds.
  The result is the stream afterwards and the exception that left the function, if any.
  \<open>data\<close> is the array behind the pointer; a read past its end is undefined behaviour in
  C++ and a separate outcome here. The statement of the loop is a chain of \<^verbatim>\<open><<\<close>: the text
  \<^verbatim>\<open>    m[i] = \<close> has reached the stream when the visitor runs, and stays there when it throws.
\<close>

function CodeGenData_loop ::
  "operand_order \<Rightarrow> IdToIndexMap \<Rightarrow> Expression list \<Rightarrow> int \<Rightarrow> int \<Rightarrow> string \<Rightarrow>
     string \<times> error option" where
  "CodeGenData_loop ord m data size' i os =
     (if i < size'
      then (if i < 0 \<or> int (length data) \<le> i then (os, Some out_of_bounds_read)
            else (case CodeGenVisitor_CodeGen ord m (data ! nat i) of
                    Inl err \<Rightarrow> (os @ ''    '' @ ''m['' @ put_int i @ ''] = '', Some err)
                  | Inr s \<Rightarrow>
                      CodeGenData_loop ord m data size' (i + 1)
                        (os @ ''    '' @ ''m['' @ put_int i @ ''] = '' @ s @ '';\<newline>'')))
      else (os, None))"
  by pat_completeness auto
termination
  by (relation "measure (\<lambda>(ord, m, data, size', i, os). nat (size' - i))") auto

declare CodeGenData_loop.simps [simp del]

definition CodeGenData ::
  "operand_order \<Rightarrow> string \<Rightarrow> Variable list \<Rightarrow> Expression list \<Rightarrow> int \<Rightarrow> string \<Rightarrow>
     string \<times> error option" where
  "CodeGenData ord function_name parameters data size' os =
     (let os1 = os @ ''void '' @ function_name @ ''(const double* p, double* m) {\<newline>'';
          id_to_idx_map = build_id_to_idx_map parameters
      in case CodeGenData_loop ord id_to_idx_map data size' 0 os1 of
           (os2, Some err) \<Rightarrow> (os2, Some err)
         | (os2, None) \<Rightarrow> (os2 @ ''}\<newline>'', None))"

definition CodeGenMeta :: "string \<Rightarrow> int \<Rightarrow> int \<Rightarrow> int \<Rightarrow> string \<Rightarrow> string" where
  "CodeGenMeta function_name parameter_size rows cols os =
     os @
     ''typedef struct {\<newline>'' @
     ''    /* p: input, vector */\<newline>'' @
     ''    struct { int size; } p;\<newline>'' @
     ''    /* m: output, matrix */\<newline>'' @
     ''    struct { int rows; int cols; } m;\<newline>'' @
     ''} '' @ function_name @ ''_meta_t;\<newline>'' @
     function_name @ ''_meta_t '' @ function_name @ ''_meta() { return {{'' @
     put_int parameter_size @ ''}, {'' @ put_int rows @ '', '' @ put_int cols @ ''}}; }\<newline>''"

section \<open>Reading numbers back\<close>

text \<open>
  What a C reader makes of the emitted numerals. \<open>digits_value\<close> is the number that a run of
  decimal digits denotes, \<open>int_value\<close> the integer that an optional minus sign and digits
  denote, and \<open>decimal_value\<close> the exact rational that a text of the form
  \<^verbatim>\<open>[-]digits.digits\<close> denotes.
\<close>

definition digit_value :: "char \<Rightarrow> nat" where
  "digit_value ch = of_char ch - 48"

definition digits_value :: "string \<Rightarrow> nat" where
  "digits_value s = foldl (\<lambda>a ch. 10 * a + digit_value ch) 0 s"

definition int_value :: "string \<Rightarrow> int" where
  "int_value s =
     (case s of
        [] \<Rightarrow> 0
      | ch # rest \<Rightarrow> if ch = CHR ''-'' then - int (digits_value rest) else int (digits_value s))"

definition has_minus :: "string \<Rightarrow> bool" where
  "has_minus s = (case s of [] \<Rightarrow> False | ch # rest \<Rightarrow> ch = CHR ''-'')"

definition decimal_value :: "string \<Rightarrow> rat" where
  "decimal_value s =
     (let body = (if has_minus s then tl s else s);
          ip = takeWhile (\<lambda>ch. ch \<noteq> CHR ''.'') body;
          fp = drop 1 (dropWhile (\<lambda>ch. ch \<noteq> CHR ''.'') body);
          v = of_nat (digits_value ip) + of_nat (digits_value fp) / 10 ^ length fp
      in if has_minus s then - v else v)"

text \<open>
  Reading a decimal text as a double (\<^verbatim>\<open>strtod\<close>) returns a double with the sign of the text
  that is nearest to the value the text denotes. \<open>parses_to s d\<close> states that of \<open>d\<close>; where
  two doubles are equally near it holds of both.
\<close>

definition parses_to :: "string \<Rightarrow> double \<Rightarrow> bool" where
  "parses_to s d \<longleftrightarrow>
     is_finite d \<and> sign_bit d = has_minus s \<and>
     (\<forall>d'. is_finite d' \<longrightarrow> \<bar>valof d - decimal_value s\<bar> \<le> \<bar>valof d' - decimal_value s\<bar>)"

section \<open>Which failure is which\<close>

text \<open>
  An exception of the visitor is explained by the expression when it is the exception for
  if-then-else and an if-then-else node occurs in the expression, or the exception for
  uninterpreted functions and such a node occurs in the expression, or the exception for a
  variable without index and a variable that has no index occurs in the expression.
\<close>

definition explained :: "IdToIndexMap \<Rightarrow> Expression \<Rightarrow> error \<Rightarrow> bool" where
  "explained m e err \<longleftrightarrow>
     err = if_then_else_unsupported \<and> (\<exists>e1 e2. subexpr (IfThenElse e1 e2) e) \<or>
     err = uninterpreted_function_unsupported \<and>
       (\<exists>name args. subexpr (UninterpretedFunction name args) e) \<or>
     err = variable_not_found \<and> (\<exists>v. subexpr (Var v) e \<and> m (get_id v) = None)"

section \<open>Auxiliary lemmas\<close>

lemma fields_one:
  "biased_exponent double_one = 1023" "fraction double_one = 0" "\<not> sign_bit double_one"
  by (simp_all add: double_one_def biased_exponent_def fraction_def sign_bit_def)

lemma fields_two:
  "biased_exponent double_two = 1024" "fraction double_two = 0" "\<not> sign_bit double_two"
  by (simp_all add: double_two_def biased_exponent_def fraction_def sign_bit_def)

lemma fields_three:
  "biased_exponent double_three = 1024" "fraction double_three = 2 ^ 51" "\<not> sign_bit double_three"
  by (simp_all add: double_three_def biased_exponent_def fraction_def sign_bit_def)

lemma magnitude_one: "magnitude double_one = (2 ^ 52, 2 ^ 52)"
  by (simp add: magnitude_def fields_one)

lemma magnitude_two: "magnitude double_two = (2 ^ 52, 2 ^ 51)"
  by (simp add: magnitude_def fields_two)

lemma magnitude_three: "magnitude double_three = (2 ^ 52 + 2 ^ 51, 2 ^ 51)"
  by (simp add: magnitude_def fields_three)

lemma replicate_numeral: "replicate (numeral k) x = x # replicate (pred_numeral k) x"
  by (simp add: numeral_eq_Suc)

lemma fixed_two: "fixed_digits (2 ^ 52) (2 ^ 51) = ''2.000000''"
  unfolding fixed_digits_def round_half_even_def Let_def
  by (simp add: dec_digits.simps digit_char_def pad_digits_def replicate_numeral)

lemma general_two: "general_digits (2 ^ 52) (2 ^ 51) = ''2''"
  unfolding general_digits_def round_half_even_def Let_def exp10_def with_point_def strip_zeros_def
  by (simp add: dec_digits.simps digit_char_def)

lemma general_three: "general_digits (2 ^ 52 + 2 ^ 51) (2 ^ 51) = ''3''"
  unfolding general_digits_def round_half_even_def Let_def exp10_def with_point_def strip_zeros_def
  by (simp add: dec_digits.simps digit_char_def)

lemma to_string_double_two: "to_string_double double_two = ''2.000000''"
  unfolding to_string_double_def is_nan_def is_inf_def magnitude_two
  using fixed_two by (simp add: fields_two)

lemma put_double_two: "put_double double_two = ''2''"
  unfolding put_double_def is_nan_def is_inf_def magnitude_two
  using general_two by (simp add: fields_two)

lemma put_double_three: "put_double double_three = ''3''"
  unfolding put_double_def is_nan_def is_inf_def magnitude_three
  using general_three by (simp add: fields_three)

lemma double_eq_one: "double_eq c double_one \<longleftrightarrow> c = double_one"
  by (auto simp: double_eq_def is_nan_def magnitude_one fields_one)

lemma is_one_iff: "is_one e \<longleftrightarrow> e = Constant double_one"
  by (cases e) (simp_all add: double_eq_one)

lemma three_neq_one: "double_three \<noteq> double_one" "double_two \<noteq> double_one"
  by (simp_all add: double_three_def double_one_def double_two_def)

lemma VisitAddition_loop_ok:
  "\<forall>(e, c) \<in> set items. CodeGenVisitor_CodeGen ord m e = Inr (txt e) \<Longrightarrow>
   VisitAddition_loop ord m items oss =
     Inr (oss @ concat (map (\<lambda>(e, c). '' + '' @
            (if c = double_one then txt e else ''('' @ put_double c @ '' * '' @ txt e @ '')'')) items))"
proof (induction items arbitrary: oss)
  case Nil
  then show ?case by simp
next
  case (Cons a items)
  obtain e c where a: "a = (e, c)" by (cases a)
  from Cons.prems a have e: "CodeGenVisitor_CodeGen ord m e = Inr (txt e)" by simp
  from Cons.prems have rest: "\<forall>(e, c) \<in> set items. CodeGenVisitor_CodeGen ord m e = Inr (txt e)"
    by simp
  show ?case
    by (simp add: a e double_eq_one Cons.IH [OF rest])
qed

lemma eval2_ok: "eval2 ord (Inr a) (Inr b) = Inr (a, b)"
  by (cases ord) (simp_all add: eval2_def)

lemma VisitMultiplication_loop_ok:
  "\<forall>(b, e) \<in> set items. CodeGenVisitor_CodeGen ord m b = Inr (txt b) \<and>
      (e \<noteq> Constant double_one \<longrightarrow> CodeGenVisitor_CodeGen ord m e = Inr (txt e)) \<Longrightarrow>
   VisitMultiplication_loop ord m items oss =
     Inr (oss @ concat (map (\<lambda>(b, e). '' * '' @
            (if e = Constant double_one then txt b
             else ''pow('' @ txt b @ '', '' @ txt e @ '')'')) items))"
proof (induction items arbitrary: oss)
  case Nil
  then show ?case by simp
next
  case (Cons a items)
  obtain b e where a: "a = (b, e)" by (cases a)
  from Cons.prems a have b: "CodeGenVisitor_CodeGen ord m b = Inr (txt b)" by simp
  from Cons.prems a have e: "e \<noteq> Constant double_one \<Longrightarrow> CodeGenVisitor_CodeGen ord m e = Inr (txt e)"
    by simp
  from Cons.prems have rest: "\<forall>(b, e) \<in> set items. CodeGenVisitor_CodeGen ord m b = Inr (txt b) \<and>
      (e \<noteq> Constant double_one \<longrightarrow> CodeGenVisitor_CodeGen ord m e = Inr (txt e))"
    by simp
  show ?case
    by (simp add: a b e is_one_iff eval2_ok Cons.IH [OF rest])
qed

lemma subexpr_iff: "subexpr s e \<longleftrightarrow> s = e \<or> list_ex (subexpr s) (children e)"
  by (auto simp: list_ex_iff intro: subexpr.intros elim: subexpr.cases)

lemma contains_unsupported_iff:
  "contains_unsupported e \<longleftrightarrow> unsupported_node e \<or> list_ex contains_unsupported (children e)"
  unfolding contains_unsupported_def
  by (subst subexpr_iff) (auto simp: list_ex_iff contains_unsupported_def)

lemma eval2_Inr_iff: "eval2 ord r1 r2 = Inr p \<longleftrightarrow> r1 = Inr (fst p) \<and> r2 = Inr (snd p)"
  by (cases ord; cases r1; cases r2; cases p) (auto simp: eval2_def)

lemma eval2_Inl_cases: "eval2 ord r1 r2 = Inl err \<Longrightarrow> r1 = Inl err \<or> r2 = Inl err"
  by (cases ord; cases r1; cases r2) (auto simp: eval2_def)

lemma VisitUnary_Inr_iff: "VisitUnary f r = Inr t \<longleftrightarrow> (\<exists>s. r = Inr s \<and> t = f @ ''('' @ s @ '')'')"
  by (cases r) (auto simp: VisitUnary_def)

lemma VisitBinary_Inr_iff:
  "VisitBinary ord f r1 r2 = Inr t \<longleftrightarrow>
     (\<exists>s1 s2. r1 = Inr s1 \<and> r2 = Inr s2 \<and> t = f @ ''('' @ s1 @ '', '' @ s2 @ '')'')"
  by (cases ord; cases r1; cases r2) (auto simp: VisitBinary_def eval2_def)

lemma VisitDivision_Inr_iff:
  "VisitDivision ord r1 r2 = Inr t \<longleftrightarrow>
     (\<exists>s1 s2. r1 = Inr s1 \<and> r2 = Inr s2 \<and> t = ''('' @ s1 @ '' / '' @ s2 @ '')'')"
  by (cases ord; cases r1; cases r2) (auto simp: VisitDivision_def eval2_def)

lemma order_independent_aux:
  "(\<forall>t. CodeGenVisitor_CodeGen ord m e = Inr t \<longrightarrow> CodeGenVisitor_CodeGen ord' m e = Inr t)"
  "(\<forall>t. VisitAddition_loop ord m ts oss = Inr t \<longrightarrow> VisitAddition_loop ord' m ts oss = Inr t)"
  "(\<forall>t. VisitMultiplication_loop ord m fs oss' = Inr t \<longrightarrow>
        VisitMultiplication_loop ord' m fs oss' = Inr t)"
proof (induction ord m e and ord m ts oss and ord m fs oss'
    rule: CodeGenVisitor_CodeGen_VisitAddition_loop_VisitMultiplication_loop.induct)
  case (3 ord m c expr_to_coeff_map)
  then show ?case by (auto split: sum.splits)
next
  case (4 ord m c base_to_exponent_map)
  then show ?case by (auto split: sum.splits)
next
  case (28 ord m e_i c_i items oss)
  then show ?case by (auto split: sum.splits if_splits)
next
  case (30 ord m e_1 e_2 items oss)
  then show ?case
    by (auto split: sum.splits if_splits simp: eval2_Inr_iff eval2_ok)
qed (auto simp: VisitUnary_Inr_iff VisitBinary_Inr_iff VisitDivision_Inr_iff)

lemma VisitUnary_Inl_iff: "VisitUnary f r = Inl err \<longleftrightarrow> r = Inl err"
  by (cases r) (auto simp: VisitUnary_def)

lemma VisitBinary_Inl: "VisitBinary ord f r1 r2 = Inl err \<Longrightarrow> r1 = Inl err \<or> r2 = Inl err"
  by (cases ord; cases r1; cases r2) (auto simp: VisitBinary_def eval2_def)

lemma VisitDivision_Inl: "VisitDivision ord r1 r2 = Inl err \<Longrightarrow> r1 = Inl err \<or> r2 = Inl err"
  by (cases ord; cases r1; cases r2) (auto simp: VisitDivision_def eval2_def)

lemma VisitBinary_fails:
  "isl r1 \<or> isl r2 \<Longrightarrow> isl (VisitBinary ord f r1 r2)"
  by (cases ord; cases r1; cases r2) (auto simp: VisitBinary_def eval2_def)

lemma VisitDivision_fails:
  "isl r1 \<or> isl r2 \<Longrightarrow> isl (VisitDivision ord r1 r2)"
  by (cases ord; cases r1; cases r2) (auto simp: VisitDivision_def eval2_def)

lemma VisitUnary_fails: "isl r \<Longrightarrow> isl (VisitUnary f r)"
  by (cases r) (auto simp: VisitUnary_def)

lemma VisitAddition_loop_fails:
  "(e, c) \<in> set items \<Longrightarrow> isl (CodeGenVisitor_CodeGen ord m e) \<Longrightarrow>
   isl (VisitAddition_loop ord m items oss)"
proof (induction items arbitrary: oss)
  case Nil
  then show ?case by simp
next
  case (Cons a items)
  obtain e' c' where a: "a = (e', c')" by (cases a)
  show ?case
  proof (cases "CodeGenVisitor_CodeGen ord m e'")
    case (Inl err)
    then show ?thesis by (simp add: a)
  next
    case (Inr s)
    with Cons.prems a have "(e, c) \<in> set items" by auto
    with Cons.IH Cons.prems(2) show ?thesis by (simp add: a Inr)
  qed
qed

lemma VisitMultiplication_loop_fails:
  "(b, e) \<in> set items \<Longrightarrow>
   isl (CodeGenVisitor_CodeGen ord m b) \<or> isl (CodeGenVisitor_CodeGen ord m e) \<Longrightarrow>
   isl (VisitMultiplication_loop ord m items oss)"
proof (induction items arbitrary: oss)
  case Nil
  then show ?case by simp
next
  case (Cons a items)
  obtain b' e' where a: "a = (b', e')" by (cases a)
  show ?case
  proof (cases "(b, e) = (b', e')")
    case True
    show ?thesis
    proof (cases "is_one e'")
      case one: True
      then have "CodeGenVisitor_CodeGen ord m e' = Inr (to_string_double double_one)"
        by (simp add: is_one_iff VisitConstant_def)
      with Cons.prems(2) True have "isl (CodeGenVisitor_CodeGen ord m b')" by auto
      then show ?thesis by (auto simp: a one split: sum.splits)
    next
      case False
      from Cons.prems(2) True
      have "isl (CodeGenVisitor_CodeGen ord m b') \<or> isl (CodeGenVisitor_CodeGen ord m e')"
        by auto
      then show ?thesis by (auto simp: a False split: sum.splits)
    qed
  next
    case False
    with Cons.prems a have "(b, e) \<in> set items" by auto
    with Cons.IH Cons.prems(2) have "\<And>oss. isl (VisitMultiplication_loop ord m items oss)" by blast
    then show ?thesis by (auto simp: a split: sum.splits prod.splits)
  qed
qed

lemma child_fails:
  assumes "c \<in> set (children e)" and "isl (CodeGenVisitor_CodeGen ord m c)"
  shows "isl (CodeGenVisitor_CodeGen ord m e)"
proof (cases e)
  case (Addition c0 ts)
  with assms(1) obtain k where "(c, k) \<in> set ts" by auto
  from VisitAddition_loop_fails [OF this assms(2), of "''('' @ put_double c0"] show ?thesis
    by (auto simp: Addition split: sum.splits)
next
  case (Multiplication c0 fs)
  with assms(1) obtain b x where bx: "(b, x) \<in> set fs" and "c = b \<or> c = x" by auto
  with assms(2) have "isl (CodeGenVisitor_CodeGen ord m b) \<or> isl (CodeGenVisitor_CodeGen ord m x)"
    by auto
  from VisitMultiplication_loop_fails [OF bx this, of "''('' @ put_double c0"] show ?thesis
    by (auto simp: Multiplication split: sum.splits)
qed (use assms in \<open>auto intro: VisitUnary_fails VisitBinary_fails VisitDivision_fails\<close>)

lemma unsupported_fails:
  "subexpr s e \<Longrightarrow> unsupported_node s \<Longrightarrow> isl (CodeGenVisitor_CodeGen ord m e)"
proof (induction rule: subexpr.induct)
  case (subexpr_self e)
  then show ?case by (cases e) simp_all
next
  case (subexpr_child c e s)
  then show ?case by (auto intro: child_fails)
qed

lemma explained_child:
  "c \<in> set (children e) \<Longrightarrow> explained m c err \<Longrightarrow> explained m e err"
  unfolding explained_def by (blast intro: subexpr_child)

lemma explained_unary:
  "r = Inl err \<longrightarrow> explained m c err \<Longrightarrow> children e = [c] \<Longrightarrow>
   VisitUnary f r = Inl err \<longrightarrow> explained m e err"
  by (cases r) (auto simp: VisitUnary_def intro: explained_child [of c])

lemma explained_binary:
  "r1 = Inl err \<longrightarrow> explained m c1 err \<Longrightarrow> r2 = Inl err \<longrightarrow> explained m c2 err \<Longrightarrow>
   children e = [c1, c2] \<Longrightarrow>
   VisitBinary ord f r1 r2 = Inl err \<longrightarrow> explained m e err"
  using explained_child [of c1 e m err] explained_child [of c2 e m err]
  by (auto dest!: VisitBinary_Inl)

lemma explained_division:
  "r1 = Inl err \<longrightarrow> explained m c1 err \<Longrightarrow> r2 = Inl err \<longrightarrow> explained m c2 err \<Longrightarrow>
   children e = [c1, c2] \<Longrightarrow>
   VisitDivision ord r1 r2 = Inl err \<longrightarrow> explained m e err"
  using explained_child [of c1 e m err] explained_child [of c2 e m err]
  by (auto dest!: VisitDivision_Inl)

lemma explained_Addition:
  "(e, k) \<in> set ts \<Longrightarrow> explained m e err \<Longrightarrow> explained m (Addition c ts) err"
  by (rule explained_child [of e]) force+

lemma explained_Multiplication:
  "(b, e) \<in> set fs \<Longrightarrow> explained m b err \<or> explained m e err \<Longrightarrow>
   explained m (Multiplication c fs) err"
proof -
  assume be: "(b, e) \<in> set fs" and ex: "explained m b err \<or> explained m e err"
  from be have "b \<in> set (children (Multiplication c fs))" "e \<in> set (children (Multiplication c fs))"
    by force+
  with ex show ?thesis
    using explained_child [of b "Multiplication c fs" m err]
      explained_child [of e "Multiplication c fs" m err] by auto
qed

lemma explained_aux:
  "CodeGenVisitor_CodeGen ord m e = Inl err \<longrightarrow> explained m e err"
  "VisitAddition_loop ord m ts oss = Inl err \<longrightarrow> (\<exists>(e, c) \<in> set ts. explained m e err)"
  "VisitMultiplication_loop ord m fs oss' = Inl err \<longrightarrow>
     (\<exists>(b, e) \<in> set fs. explained m b err \<or> explained m e err)"
proof (induction ord m e and ord m ts oss and ord m fs oss'
    rule: CodeGenVisitor_CodeGen_VisitAddition_loop_VisitMultiplication_loop.induct)
  case (1 ord m v)
  then show ?case
    by (auto simp: VisitVariable_def explained_def intro: subexpr_self split: option.splits)
next
  case (2 ord m c)
  then show ?case by (simp add: VisitConstant_def)
next
  case (3 ord m c ts)
  show ?case
  proof
    assume "CodeGenVisitor_CodeGen ord m (Addition c ts) = Inl err"
    then have "VisitAddition_loop ord m ts (''('' @ put_double c) = Inl err"
      by (simp split: sum.splits)
    with 3 obtain e k where "(e, k) \<in> set ts" "explained m e err" by auto
    then show "explained m (Addition c ts) err"
      by (rule explained_Addition)
  qed
next
  case (4 ord m c fs)
  show ?case
  proof
    assume "CodeGenVisitor_CodeGen ord m (Multiplication c fs) = Inl err"
    then have "VisitMultiplication_loop ord m fs (''('' @ put_double c) = Inl err"
      by (simp split: sum.splits)
    with 4 obtain b e where be: "(b, e) \<in> set fs" "explained m b err \<or> explained m e err" by auto
    then show "explained m (Multiplication c fs) err"
      by (rule explained_Multiplication)
  qed
next
  case (25 ord m e1 e2)
  then show ?case using subexpr_self unfolding explained_def by fastforce
next
  case (26 ord m name args)
  then show ?case using subexpr_self unfolding explained_def by fastforce
next
  case (27 ord m oss)
  then show ?case by simp
next
  case (28 ord m e_i c_i items oss)
  then show ?case by (auto split: sum.splits if_splits)
next
  case (29 ord m oss)
  then show ?case by simp
next
  case (30 ord m e_1 e_2 items oss)
  then show ?case
    by (auto split: sum.splits if_splits dest!: eval2_Inl_cases)
qed ((simp, erule explained_unary, simp)
    | (simp, erule explained_binary, assumption, simp)
    | (simp, erule explained_division, assumption, simp))+

lemma emplace_apply:
  "emplace m k v k' = (if k' = k \<and> m k = None then Some v else m k')"
  by (auto simp: emplace_def split: option.splits)

lemma id_to_idx_loop_keeps:
  "m v = Some x \<Longrightarrow> id_to_idx_loop ps i m v = Some x"
proof (induction ps i m rule: id_to_idx_loop.induct)
  case (1 ps i m)
  show ?case
  proof (cases "i < length ps")
    case True
    from "1.prems" have "emplace m (get_id (ps ! i)) i v = Some x"
      by (auto simp: emplace_apply)
    from "1.IH" [OF True this] True show ?thesis by (subst id_to_idx_loop.simps) simp
  next
    case False
    with "1.prems" show ?thesis by (subst id_to_idx_loop.simps) simp
  qed
qed

lemma id_to_idx_loop_first:
  "m v = None \<Longrightarrow> i \<le> k \<Longrightarrow> k < length ps \<Longrightarrow> get_id (ps ! k) = v \<Longrightarrow>
   \<forall>j. i \<le> j \<and> j < k \<longrightarrow> get_id (ps ! j) \<noteq> v \<Longrightarrow>
   id_to_idx_loop ps i m v = Some k"
proof (induction ps i m rule: id_to_idx_loop.induct)
  case (1 ps i m)
  from "1.prems" have lt: "i < length ps" by simp
  show ?case
  proof (cases "i = k")
    case True
    with "1.prems" have "emplace m (get_id (ps ! i)) i v = Some k" by (auto simp: emplace_apply)
    then have "id_to_idx_loop ps (Suc i) (emplace m (get_id (ps ! i)) i) v = Some k"
      by (rule id_to_idx_loop_keeps)
    with lt show ?thesis by (subst id_to_idx_loop.simps) simp
  next
    case False
    with "1.prems" have ne: "get_id (ps ! i) \<noteq> v" and le: "Suc i \<le> k" by auto
    from ne "1.prems" have "emplace m (get_id (ps ! i)) i v = None" by (auto simp: emplace_apply)
    from "1.IH" [OF lt this le "1.prems"(3,4)] "1.prems"(5)
    have "id_to_idx_loop ps (Suc i) (emplace m (get_id (ps ! i)) i) v = Some k" by auto
    with lt show ?thesis by (subst id_to_idx_loop.simps) simp
  qed
qed

lemma id_to_idx_loop_absent:
  "m v = None \<Longrightarrow> \<forall>j. i \<le> j \<and> j < length ps \<longrightarrow> get_id (ps ! j) \<noteq> v \<Longrightarrow>
   id_to_idx_loop ps i m v = None"
proof (induction ps i m rule: id_to_idx_loop.induct)
  case (1 ps i m)
  show ?case
  proof (cases "i < length ps")
    case True
    with "1.prems" have ne: "get_id (ps ! i) \<noteq> v" by auto
    from ne "1.prems" have "emplace m (get_id (ps ! i)) i v = None" by (auto simp: emplace_apply)
    from "1.IH" [OF True this] "1.prems"(2)
    have "id_to_idx_loop ps (Suc i) (emplace m (get_id (ps ! i)) i) v = None" by auto
    with True show ?thesis by (subst id_to_idx_loop.simps) simp
  next
    case False
    with "1.prems" show ?thesis by (subst id_to_idx_loop.simps) simp
  qed
qed

lemma build_first:
  "k < length ps \<Longrightarrow> \<forall>j < k. get_id (ps ! j) \<noteq> get_id (ps ! k) \<Longrightarrow>
   build_id_to_idx_map ps (get_id (ps ! k)) = Some k"
  unfolding build_id_to_idx_map_def by (rule id_to_idx_loop_first) auto

lemma build_absent:
  "\<forall>j < length ps. get_id (ps ! j) \<noteq> v \<Longrightarrow> build_id_to_idx_map ps v = None"
  unfolding build_id_to_idx_map_def by (rule id_to_idx_loop_absent) auto

lemma CodeGenData_loop_ok:
  "0 \<le> i \<Longrightarrow>
   \<forall>k. nat i \<le> k \<and> int k < size' \<longrightarrow>
     k < length data \<and> CodeGenVisitor_CodeGen ord m (data ! k) = Inr (lowered k) \<Longrightarrow>
   CodeGenData_loop ord m data size' i os =
     (os @ concat (map (\<lambda>k. ''    m['' @ dec_digits k @ ''] = '' @ lowered k @ '';\<newline>'')
                     [nat i ..< nat size']), None)"
proof (induction ord m data size' i os rule: CodeGenData_loop.induct)
  case (1 ord m data size' i os)
  show ?case
  proof (cases "i < size'")
    case False
    then show ?thesis by (subst CodeGenData_loop.simps) simp
  next
    case True
    with "1.prems" have here: "nat i < length data"
      "CodeGenVisitor_CodeGen ord m (data ! nat i) = Inr (lowered (nat i))" by auto
    with "1.prems" have run: "\<not> (i < 0 \<or> int (length data) \<le> i)" by auto
    have rest: "\<forall>k. nat (i + 1) \<le> k \<and> int k < size' \<longrightarrow>
        k < length data \<and> CodeGenVisitor_CodeGen ord m (data ! k) = Inr (lowered k)"
      using "1.prems" by auto
    from "1.prems" have nn: "0 \<le> i + 1" by simp
    have upt: "[nat i ..< nat size'] = nat i # [nat (i + 1) ..< nat size']"
      using True "1.prems"(1) by (simp add: upt_conv_Cons nat_add_distrib)
    have pi: "put_int i = dec_digits (nat i)"
      using "1.prems"(1) by (simp add: put_int_def)
    from "1.IH" [OF True run here(2) nn rest] True run here(2) show ?thesis
      by (subst CodeGenData_loop.simps) (simp add: upt pi)
  qed
qed

lemma CodeGenData_loop_errors:
  "snd (CodeGenData_loop ord m data size' i os) = Some err \<Longrightarrow>
   err = out_of_bounds_read \<or> (\<exists>k. k < length data \<and> int k < size' \<and>
     CodeGenVisitor_CodeGen ord m (data ! k) = Inl err)"
proof (induction ord m data size' i os rule: CodeGenData_loop.induct)
  case (1 ord m data size' i os)
  show ?case
  proof (cases "i < size' \<and> \<not> (i < 0 \<or> int (length data) \<le> i)")
    case False
    with "1.prems" show ?thesis
      by (subst (asm) CodeGenData_loop.simps) (auto split: if_splits)
  next
    case True
    then have k: "nat i < length data" "int (nat i) < size'" by auto
    show ?thesis
    proof (cases "CodeGenVisitor_CodeGen ord m (data ! nat i)")
      case (Inl e)
      with True "1.prems" have "err = e"
        by (subst (asm) CodeGenData_loop.simps) (cases ord; simp)
      with Inl k show ?thesis by blast
    next
      case (Inr s)
      with True "1.prems" have
        "snd (CodeGenData_loop ord m data size' (i + 1)
               (os @ ''    '' @ ''m['' @ put_int i @ ''] = '' @ s @ '';\<newline>'')) = Some err"
        by (subst (asm) CodeGenData_loop.simps) simp
      from "1.IH" [OF _ _ Inr this] True show ?thesis by auto
    qed
  qed
qed

lemma contains_unsupported_fails:
  "contains_unsupported e \<Longrightarrow> \<exists>err. CodeGenVisitor_CodeGen ord m e = Inl err \<and> explained m e err"
proof -
  assume "contains_unsupported e"
  then obtain s where "subexpr s e" "unsupported_node s"
    by (auto simp: contains_unsupported_def)
  then have "isl (CodeGenVisitor_CodeGen ord m e)" by (rule unsupported_fails)
  then obtain err where "CodeGenVisitor_CodeGen ord m e = Inl err"
    by (cases "CodeGenVisitor_CodeGen ord m e") auto
  with explained_aux(1) [of ord m e err] show ?thesis by auto
qed

lemma dec_digits_less_10: "n < 10 \<Longrightarrow> dec_digits n = [digit_char n]"
  by (subst dec_digits.simps) simp

lemma put_int_0: "put_int 0 = ''0''"
  by (simp add: put_int_def dec_digits_less_10 digit_char_def)

lemma CodeGen_order:
  "CodeGen ord f ps e = Inr t \<Longrightarrow> CodeGen ord' f ps e = Inr t"
proof -
  assume a: "CodeGen ord f ps e = Inr t"
  then obtain s where s: "CodeGenVisitor_CodeGen ord (build_id_to_idx_map ps) e = Inr s"
    unfolding CodeGen_def Let_def
    by (cases "CodeGenVisitor_CodeGen ord (build_id_to_idx_map ps) e") auto
  with order_independent_aux(1) [of ord "build_id_to_idx_map ps" e ord']
  have "CodeGenVisitor_CodeGen ord' (build_id_to_idx_map ps) e = Inr s" by simp
  with a s show ?thesis unfolding CodeGen_def Let_def by simp
qed

lemma digit_value_digit_char: "d < 10 \<Longrightarrow> digit_value (digit_char d) = d"
proof -
  assume "d < 10"
  then have "d \<in> {0, 1, 2, 3, 4, 5, 6, 7, 8, 9}" by auto
  then show ?thesis
    by (elim insertE emptyE) (simp_all add: digit_value_def digit_char_def)
qed

lemma digit_char_is_digit:
  "d < 10 \<Longrightarrow> digit_char d \<noteq> CHR ''.'' \<and> digit_char d \<noteq> CHR ''-''"
proof -
  assume "d < 10"
  then have "d \<in> {0, 1, 2, 3, 4, 5, 6, 7, 8, 9}" by auto
  then show ?thesis
    by (elim insertE emptyE) (simp_all add: digit_char_def)
qed

lemma digits_value_snoc:
  "digits_value (s @ [ch]) = 10 * digits_value s + digit_value ch"
  by (simp add: digits_value_def)

lemma digits_value_dec_digits: "digits_value (dec_digits n) = n"
proof (induction n rule: dec_digits.induct)
  case (1 n)
  show ?case
  proof (cases "n < 10")
    case True
    then show ?thesis
      by (subst dec_digits.simps) (simp add: digits_value_def digit_value_digit_char)
  next
    case False
    with 1 have "digits_value (dec_digits (n div 10)) = n div 10" by simp
    with False show ?thesis
      by (subst dec_digits.simps) (simp add: digits_value_snoc digit_value_digit_char)
  qed
qed

lemma dec_digits_chars:
  "ch \<in> set (dec_digits n) \<Longrightarrow> ch \<noteq> CHR ''.'' \<and> ch \<noteq> CHR ''-''"
proof (induction n rule: dec_digits.induct)
  case (1 n)
  show ?case
  proof (cases "n < 10")
    case True
    with "1.prems" have "ch = digit_char n"
      by (subst (asm) dec_digits.simps) simp
    with True show ?thesis by (simp add: digit_char_is_digit)
  next
    case False
    with "1.prems" have "ch \<in> set (dec_digits (n div 10)) \<or> ch = digit_char (n mod 10)"
      by (subst (asm) dec_digits.simps) auto
    with "1.IH" [OF False] show ?thesis
      by (auto simp: digit_char_is_digit)
  qed
qed

lemma dec_digits_not_Nil: "dec_digits n \<noteq> []"
  by (subst dec_digits.simps) simp

lemma has_minus_dec_digits: "\<not> has_minus (dec_digits n @ s)"
proof -
  obtain ch rest where c: "dec_digits n = ch # rest"
    using dec_digits_not_Nil [of n] by (cases "dec_digits n") auto
  then have "ch \<in> set (dec_digits n)" by simp
  then have "ch \<noteq> CHR ''-''" by (simp add: dec_digits_chars)
  with c show ?thesis by (simp add: has_minus_def)
qed

lemma int_value_put_int: "int_value (put_int i) = i"
proof (cases "i < 0")
  case True
  then show ?thesis
    by (simp add: put_int_def int_value_def digits_value_dec_digits)
next
  case False
  obtain ch rest where c: "dec_digits (nat i) = ch # rest"
    using dec_digits_not_Nil [of "nat i"] by (cases "dec_digits (nat i)") auto
  then have "ch \<in> set (dec_digits (nat i))" by simp
  then have "ch \<noteq> CHR ''-''" by (simp add: dec_digits_chars)
  with c False digits_value_dec_digits [of "nat i"] show ?thesis
    by (simp add: put_int_def int_value_def)
qed

lemma fixed_one: "fixed_digits (2 ^ 52) (2 ^ 52) = ''1.000000''"
  unfolding fixed_digits_def round_half_even_def Let_def
  by (simp add: dec_digits.simps digit_char_def pad_digits_def replicate_numeral)

lemma to_string_double_one: "to_string_double double_one = ''1.000000''"
  unfolding to_string_double_def is_nan_def is_inf_def magnitude_one
  using fixed_one by (simp add: fields_one)

lemma CodeGenData_ok:
  assumes "\<forall>k. int k < size' \<longrightarrow>
      k < length data \<and>
      CodeGenVisitor_CodeGen ord (build_id_to_idx_map ps) (data ! k) = Inr (lowered k)"
  shows "CodeGenData ord f ps data size' os =
     (os @ ''void '' @ f @ ''(const double* p, double* m) {\<newline>'' @
      concat (map (\<lambda>k. ''    m['' @ dec_digits k @ ''] = '' @ lowered k @ '';\<newline>'')
                [0 ..< nat size']) @
      ''}\<newline>'', None)"
proof -
  define os1 where "os1 = os @ ''void '' @ f @ ''(const double* p, double* m) {\<newline>''"
  have "CodeGenData_loop ord (build_id_to_idx_map ps) data size' 0 os1 =
     (os1 @ concat (map (\<lambda>k. ''    m['' @ dec_digits k @ ''] = '' @ lowered k @ '';\<newline>'')
                     [nat 0 ..< nat size']), None)"
    using assms by (intro CodeGenData_loop_ok) auto
  then show ?thesis
    unfolding CodeGenData_def Let_def os1_def [symmetric] by (simp add: os1_def)
qed

lemma CodeGenData_errors:
  assumes "snd (CodeGenData ord f ps data size' os) = Some err"
  shows "err = out_of_bounds_read \<or> (\<exists>k. k < length data \<and> int k < size' \<and>
     CodeGenVisitor_CodeGen ord (build_id_to_idx_map ps) (data ! k) = Inl err)"
proof -
  define os1 where "os1 = os @ ''void '' @ f @ ''(const double* p, double* m) {\<newline>''"
  define r where "r = CodeGenData_loop ord (build_id_to_idx_map ps) data size' 0 os1"
  from assms have "snd r = Some err"
    unfolding CodeGenData_def Let_def r_def [symmetric] os1_def [symmetric]
    by (cases r) (auto split: option.splits)
  then show ?thesis unfolding r_def by (rule CodeGenData_loop_errors)
qed

lemma put_int_int: "put_int (int n) = dec_digits n"
  by (simp add: put_int_def)

lemma magnitude_pos: "0 < snd (magnitude d)"
  by (simp add: magnitude_def Let_def)

lemma round_half_even_bound:
  assumes "0 < d"
  shows "\<bar>(of_nat (round_half_even n d) :: rat) - of_nat n / of_nat d\<bar> \<le> 1 / 2"
proof -
  define q where "q = n div d"
  define r where "r = n mod d"
  have n: "n = q * d + r" by (simp add: q_def r_def)
  have rd: "r < d" using assms by (simp add: r_def)
  define x :: rat where "x = of_nat r / of_nat d"
  have dpos: "(0 :: rat) < of_nat d" using assms by simp
  have frac: "(of_nat n :: rat) / of_nat d = of_nat q + x"
    using dpos by (simp add: n x_def field_simps)
  have x0: "0 \<le> x" by (simp add: x_def)
  have lt: "2 * r < d \<Longrightarrow> x \<le> 1 / 2"
  proof -
    assume "2 * r < d"
    then have "(2 :: rat) * of_nat r \<le> of_nat d"
      by (metis less_imp_le of_nat_le_iff of_nat_mult of_nat_numeral)
    with dpos show ?thesis by (simp add: x_def field_simps)
  qed
  have gt: "d \<le> 2 * r \<Longrightarrow> 1 / 2 \<le> x"
  proof -
    assume "d \<le> 2 * r"
    then have "(of_nat d :: rat) \<le> 2 * of_nat r"
      by (metis of_nat_le_iff of_nat_mult of_nat_numeral)
    with dpos show ?thesis by (simp add: x_def field_simps)
  qed
  have x1: "x < 1" using rd dpos by (simp add: x_def)
  have le: "2 * r \<le> d \<Longrightarrow> x \<le> 1 / 2"
  proof -
    assume "2 * r \<le> d"
    then have "(2 :: rat) * of_nat r \<le> of_nat d"
      by (metis of_nat_le_iff of_nat_mult of_nat_numeral)
    with dpos show ?thesis by (simp add: x_def field_simps)
  qed
  consider "2 * r < d" | "d < 2 * r" | "2 * r = d" by linarith
  then show ?thesis
  proof cases
    case 1
    then have "round_half_even n d = q"
      by (simp add: round_half_even_def Let_def q_def r_def)
    with lt [OF 1] x0 show ?thesis by (simp add: frac)
  next
    case 2
    then have "round_half_even n d = q + 1"
      by (simp add: round_half_even_def Let_def q_def r_def)
    with gt [of] 2 x1 show ?thesis by (simp add: frac)
  next
    case 3
    then have "round_half_even n d = q \<or> round_half_even n d = q + 1"
      by (simp add: round_half_even_def Let_def q_def r_def)
    moreover from 3 have "x \<le> 1 / 2" "1 / 2 \<le> x" using le gt by auto
    ultimately show ?thesis using x0 by (auto simp: frac)
  qed
qed

lemma round_half_even_exact:
  "0 < d \<Longrightarrow> d dvd n \<Longrightarrow> round_half_even n d = n div d"
  by (auto simp: round_half_even_def Let_def)

lemma length_dec_digits: "0 < k \<Longrightarrow> n < 10 ^ k \<Longrightarrow> length (dec_digits n) \<le> k"
proof (induction n arbitrary: k rule: dec_digits.induct)
  case (1 n)
  show ?case
  proof (cases "n < 10")
    case True
    with "1.prems" show ?thesis by (subst dec_digits.simps) simp
  next
    case False
    then obtain j where k: "k = Suc j" "0 < j"
      using "1.prems" by (cases k; cases "k - 1") auto
    with "1.prems" have "n div 10 < 10 ^ j"
      by (simp add: less_mult_imp_div_less mult.commute)
    from "1.IH" [OF False k(2) this] k False show ?thesis
      by (subst dec_digits.simps) simp
  qed
qed

lemma digit_value_zero: "digit_value (CHR ''0'') = 0"
  by (simp add: digit_value_def)

lemma digits_value_zeros: "digits_value (replicate j (CHR ''0'') @ s) = digits_value s"
proof -
  have "foldl (\<lambda>a ch. 10 * a + digit_value ch) 0 (replicate j (CHR ''0'')) = 0"
    by (induction j) (simp_all add: digit_value_zero)
  then show ?thesis by (simp add: digits_value_def)
qed

lemma pad_digits_six:
  assumes "n < 10 ^ 6"
  shows "length (pad_digits 6 n) = 6" "digits_value (pad_digits 6 n) = n"
    "\<forall>ch \<in> set (pad_digits 6 n). ch \<noteq> CHR ''.''"
proof -
  from length_dec_digits [of 6 n] assms have "length (dec_digits n) \<le> 6" by simp
  then show "length (pad_digits 6 n) = 6" by (simp add: pad_digits_def)
  show "digits_value (pad_digits 6 n) = n"
    by (simp add: pad_digits_def digits_value_zeros digits_value_dec_digits)
  show "\<forall>ch \<in> set (pad_digits 6 n). ch \<noteq> CHR ''.''"
    by (auto simp: pad_digits_def dest: dec_digits_chars)
qed

lemma decimal_value_fixed:
  assumes "\<forall>ch \<in> set fp. ch \<noteq> CHR ''.''"
  shows "decimal_value (dec_digits ip @ ''.'' @ fp) =
           of_nat ip + of_nat (digits_value fp) / 10 ^ length fp"
    and "decimal_value (''-'' @ dec_digits ip @ ''.'' @ fp) =
           - (of_nat ip + of_nat (digits_value fp) / 10 ^ length fp)"
proof -
  have tw: "takeWhile (\<lambda>ch. ch \<noteq> CHR ''.'') (dec_digits ip @ CHR ''.'' # fp) = dec_digits ip"
    by (subst takeWhile_append2) (auto dest: dec_digits_chars)
  have dw: "dropWhile (\<lambda>ch. ch \<noteq> CHR ''.'') (dec_digits ip @ CHR ''.'' # fp) = CHR ''.'' # fp"
    by (subst dropWhile_append2) (auto dest: dec_digits_chars)
  show "decimal_value (dec_digits ip @ ''.'' @ fp) =
           of_nat ip + of_nat (digits_value fp) / 10 ^ length fp"
    unfolding decimal_value_def Let_def
    using has_minus_dec_digits [of ip "''.'' @ fp"]
    by (simp add: tw dw digits_value_dec_digits)
  have hm: "has_minus (''-'' @ dec_digits ip @ ''.'' @ fp)" by (simp add: has_minus_def)
  show "decimal_value (''-'' @ dec_digits ip @ ''.'' @ fp) =
           - (of_nat ip + of_nat (digits_value fp) / 10 ^ length fp)"
    unfolding decimal_value_def Let_def
    using hm tw dw by (simp add: digits_value_dec_digits)
qed

lemma decimal_value_fixed_digits:
  "decimal_value (fixed_digits n d) = of_nat (round_half_even (n * 10 ^ 6) d) / 10 ^ 6"
  "decimal_value (''-'' @ fixed_digits n d) = - (of_nat (round_half_even (n * 10 ^ 6) d) / 10 ^ 6)"
proof -
  define q where "q = round_half_even (n * 10 ^ 6) d"
  have m: "q mod 10 ^ 6 < 10 ^ 6" by simp
  have split: "(of_nat (q div 10 ^ 6) :: rat) + of_nat (q mod 10 ^ 6) / 10 ^ 6 = of_nat q / 10 ^ 6"
  proof -
    have "q = (q div 10 ^ 6) * 10 ^ 6 + q mod 10 ^ 6" by simp
    then have "(of_nat q :: rat) = of_nat (q div 10 ^ 6) * 10 ^ 6 + of_nat (q mod 10 ^ 6)"
      by (metis of_nat_add of_nat_mult of_nat_numeral of_nat_power)
    then show ?thesis by (simp add: field_simps)
  qed
  show "decimal_value (fixed_digits n d) = of_nat (round_half_even (n * 10 ^ 6) d) / 10 ^ 6"
    unfolding fixed_digits_def Let_def q_def [symmetric]
    using decimal_value_fixed(1) [OF pad_digits_six(3) [OF m], of "q div 10 ^ 6"]
      pad_digits_six(1,2) [OF m] split
    by simp
  show "decimal_value (''-'' @ fixed_digits n d) =
      - (of_nat (round_half_even (n * 10 ^ 6) d) / 10 ^ 6)"
    unfolding fixed_digits_def Let_def q_def [symmetric]
    using decimal_value_fixed(2) [OF pad_digits_six(3) [OF m], of "q div 10 ^ 6"]
      pad_digits_six(1,2) [OF m] split
    by simp
qed

lemma to_string_double_finite:
  "is_finite c \<Longrightarrow>
   to_string_double c =
     (if sign_bit c then ''-'' else []) @ fixed_digits (fst (magnitude c)) (snd (magnitude c))"
  by (simp add: to_string_double_def is_finite_def is_nan_def is_inf_def split: prod.splits)

lemma has_minus_fixed_digits: "\<not> has_minus (fixed_digits n d)"
  unfolding fixed_digits_def Let_def by (rule has_minus_dec_digits)

lemma has_minus_to_string_double:
  "is_finite c \<Longrightarrow> has_minus (to_string_double c) = sign_bit c"
  using has_minus_fixed_digits [of "fst (magnitude c)" "snd (magnitude c)"]
  by (simp add: to_string_double_finite) (simp add: has_minus_def)

lemma valof_alt:
  "valof c = (if sign_bit c then - 1 else 1) *
     (of_nat (fst (magnitude c)) / of_nat (snd (magnitude c)))"
  by (simp add: valof_def split: prod.splits)

lemma decimal_value_to_string_double:
  "is_finite c \<Longrightarrow>
   decimal_value (to_string_double c) =
     (if sign_bit c then - 1 else 1) *
     (of_nat (round_half_even (fst (magnitude c) * 10 ^ 6) (snd (magnitude c))) / 10 ^ 6)"
  using decimal_value_fixed_digits [of "fst (magnitude c)" "snd (magnitude c)"]
  by (simp add: to_string_double_finite)

lemma to_string_double_close:
  assumes "is_finite c"
  shows "\<bar>decimal_value (to_string_double c) - valof c\<bar> \<le> 1 / (2 * 10 ^ 6)"
proof -
  define n where "n = fst (magnitude c)"
  define d where "d = snd (magnitude c)"
  define q :: rat where "q = of_nat (round_half_even (n * 10 ^ 6) d)"
  have d: "0 < d" unfolding d_def by (rule magnitude_pos)
  from round_half_even_bound [OF d, of "n * 10 ^ 6"]
  have "\<bar>q - of_nat n * 10 ^ 6 / of_nat d\<bar> \<le> 1 / 2" by (simp add: q_def)
  then have "\<bar>q - of_nat n * 10 ^ 6 / of_nat d\<bar> / 10 ^ 6 \<le> (1 / 2) / 10 ^ 6"
    by (rule divide_right_mono) simp
  moreover have "\<bar>q - of_nat n * 10 ^ 6 / of_nat d\<bar> / 10 ^ 6 = \<bar>q / 10 ^ 6 - of_nat n / of_nat d\<bar>"
  proof -
    have "q / 10 ^ 6 - of_nat n / of_nat d = (q - of_nat n * 10 ^ 6 / of_nat d) / 10 ^ 6"
      by (simp add: field_simps)
    then have "\<bar>q / 10 ^ 6 - of_nat n / of_nat d\<bar> =
        \<bar>q - of_nat n * 10 ^ 6 / of_nat d\<bar> / \<bar>10 ^ 6\<bar>"
      by (simp only: abs_divide)
    then show ?thesis by simp
  qed
  ultimately have b: "\<bar>q / 10 ^ 6 - of_nat n / of_nat d\<bar> \<le> 1 / (2 * 10 ^ 6)" by simp
  have "\<bar>decimal_value (to_string_double c) - valof c\<bar> = \<bar>q / 10 ^ 6 - of_nat n / of_nat d\<bar>"
    unfolding decimal_value_to_string_double [OF assms] valof_alt n_def [symmetric]
      d_def [symmetric] q_def [symmetric]
    by (cases "sign_bit c") (simp_all add: abs_minus_commute)
  with b show ?thesis by simp
qed

lemma to_string_double_exact:
  assumes "is_finite c" and "valof c * 10 ^ 6 \<in> \<int>"
  shows "decimal_value (to_string_double c) = valof c"
proof -
  define n where "n = fst (magnitude c)"
  define d where "d = snd (magnitude c)"
  have d: "0 < d" unfolding d_def by (rule magnitude_pos)
  from assms(2) have "(of_nat n / of_nat d :: rat) * 10 ^ 6 \<in> \<int>"
    unfolding valof_alt n_def [symmetric] d_def [symmetric]
    by (cases "sign_bit c") (simp_all add: minus_in_Ints_iff)
  then obtain k :: int where k: "(of_nat n / of_nat d :: rat) * 10 ^ 6 = of_int k"
    by (auto elim: Ints_cases)
  with d have "(of_nat (n * 10 ^ 6) :: rat) = of_int (k * int d)"
    by (simp add: field_simps)
  then have "int (n * 10 ^ 6) = k * int d"
    by (metis of_int_eq_iff of_int_of_nat_eq)
  then have "int d dvd int (n * 10 ^ 6)" by simp
  then have dv: "d dvd n * 10 ^ 6" by (simp only: int_dvd_int_iff)
  then obtain j where j: "n * 10 ^ 6 = d * j" by (auto elim: dvdE)
  with d have "round_half_even (n * 10 ^ 6) d = j"
    using round_half_even_exact [OF d dv] by simp
  moreover have "(of_nat j :: rat) / 10 ^ 6 = of_nat n / of_nat d"
  proof -
    from j have "(of_nat n :: rat) * 10 ^ 6 = of_nat d * of_nat j"
      by (metis of_nat_mult of_nat_numeral of_nat_power)
    with d show ?thesis by (simp add: field_simps)
  qed
  ultimately show ?thesis
    unfolding decimal_value_to_string_double [OF assms(1)] valof_alt n_def [symmetric]
      d_def [symmetric]
    by simp
qed

lemma fields_two_pow_minus_30:
  "biased_exponent 0x3E10000000000000 = 993" "fraction 0x3E10000000000000 = 0"
  "\<not> sign_bit 0x3E10000000000000"
  by (simp_all add: biased_exponent_def fraction_def sign_bit_def)

lemma magnitude_two_pow_minus_30: "magnitude 0x3E10000000000000 = (2 ^ 52, 2 ^ 82)"
  by (simp add: magnitude_def fields_two_pow_minus_30)

lemma fixed_two_pow_minus_30: "fixed_digits (2 ^ 52) (2 ^ 82) = ''0.000000''"
  unfolding fixed_digits_def round_half_even_def Let_def
  by (simp add: dec_digits.simps digit_char_def pad_digits_def replicate_numeral)

lemma to_string_double_two_pow_minus_30: "to_string_double 0x3E10000000000000 = ''0.000000''"
  unfolding to_string_double_def is_nan_def is_inf_def magnitude_two_pow_minus_30
  using fixed_two_pow_minus_30 by (simp add: fields_two_pow_minus_30)

lemma valof_two_pow_minus_30: "valof 0x3E10000000000000 = 1 / 2 ^ 30"
  unfolding valof_def magnitude_two_pow_minus_30 by (simp add: fields_two_pow_minus_30)

lemma decimal_value_zero_text: "decimal_value ''0.000000'' = 0"
  by (simp add: decimal_value_def has_minus_def digits_value_def digit_value_def)

lemma valof_zero: "is_finite 0" "valof 0 = 0"
  by (simp_all add: is_finite_def valof_def magnitude_def biased_exponent_def fraction_def)

lemma valof_two: "valof double_two = 2" "is_finite double_two"
  unfolding valof_def magnitude_two is_finite_def by (simp_all add: fields_two)

lemma isl_order_independent:
  "isl (CodeGenVisitor_CodeGen ord m e) \<longleftrightarrow> isl (CodeGenVisitor_CodeGen ord' m e)"
  using order_independent_aux(1) [of ord m e ord'] order_independent_aux(1) [of ord' m e ord]
  by (cases "CodeGenVisitor_CodeGen ord m e"; cases "CodeGenVisitor_CodeGen ord' m e") auto

lemma CodeGenData_loop_stream_order:
  "fst (CodeGenData_loop ord m data size' i os) = fst (CodeGenData_loop ord' m data size' i os) \<and>
   (snd (CodeGenData_loop ord m data size' i os) = None \<longleftrightarrow>
    snd (CodeGenData_loop ord' m data size' i os) = None)"
proof (induction ord m data size' i os rule: CodeGenData_loop.induct)
  case (1 ord m data size' i os)
  show ?case
  proof (cases "i < size' \<and> \<not> (i < 0 \<or> int (length data) \<le> i)")
    case False
    then show ?thesis
      by (subst CodeGenData_loop.simps, subst (2) CodeGenData_loop.simps,
          subst (3) CodeGenData_loop.simps, subst (4) CodeGenData_loop.simps) auto
  next
    case True
    show ?thesis
    proof (cases "CodeGenVisitor_CodeGen ord m (data ! nat i)")
      case (Inl err)
      with isl_order_independent [of ord m "data ! nat i" ord']
      obtain err' where "CodeGenVisitor_CodeGen ord' m (data ! nat i) = Inl err'"
        by (cases "CodeGenVisitor_CodeGen ord' m (data ! nat i)") auto
      with Inl True show ?thesis
        by (subst CodeGenData_loop.simps, subst (2) CodeGenData_loop.simps,
            subst (3) CodeGenData_loop.simps, subst (4) CodeGenData_loop.simps) simp
    next
      case (Inr s)
      with order_independent_aux(1) [of ord m "data ! nat i" ord']
      have s': "CodeGenVisitor_CodeGen ord' m (data ! nat i) = Inr s" by simp
      from "1.IH" [OF _ _ Inr] True Inr s' show ?thesis
        by (subst CodeGenData_loop.simps, subst (2) CodeGenData_loop.simps,
            subst (3) CodeGenData_loop.simps, subst (4) CodeGenData_loop.simps) simp
    qed
  qed
qed

lemma CodeGenData_stream_order:
  "fst (CodeGenData ord f ps data size' os) = fst (CodeGenData ord' f ps data size' os) \<and>
   (snd (CodeGenData ord f ps data size' os) = None \<longleftrightarrow>
    snd (CodeGenData ord' f ps data size' os) = None)"
proof -
  define os1 where "os1 = os @ ''void '' @ f @ ''(const double* p, double* m) {\<newline>''"
  define r where "r = CodeGenData_loop ord (build_id_to_idx_map ps) data size' 0 os1"
  define r' where "r' = CodeGenData_loop ord' (build_id_to_idx_map ps) data size' 0 os1"
  from CodeGenData_loop_stream_order [of ord "build_id_to_idx_map ps" data size' 0 os1 ord']
  have "fst r = fst r'" "snd r = None \<longleftrightarrow> snd r' = None"
    unfolding r_def r'_def by auto
  then show ?thesis
    unfolding CodeGenData_def Let_def r_def [symmetric] r'_def [symmetric] os1_def [symmetric]
    by (cases r; cases r') (auto split: option.splits)
qed

lemma CodeGen_order_iff:
  "CodeGen ord f ps e = Inr t \<longleftrightarrow> CodeGen ord' f ps e = Inr t"
  using CodeGen_order [of ord f ps e t ord'] CodeGen_order [of ord' f ps e t ord] by blast

lemma CodeGenData_loop_first_failure:
  "0 \<le> i \<Longrightarrow> nat i \<le> j \<Longrightarrow> int j < size' \<Longrightarrow> j < length data \<Longrightarrow>
   CodeGenVisitor_CodeGen ord m (data ! j) = Inl err \<Longrightarrow>
   \<forall>k. nat i \<le> k \<and> k < j \<longrightarrow> CodeGenVisitor_CodeGen ord m (data ! k) = Inr (lowered k) \<Longrightarrow>
   CodeGenData_loop ord m data size' i os =
     (os @ concat (map (\<lambda>k. ''    m['' @ dec_digits k @ ''] = '' @ lowered k @ '';\<newline>'')
                     [nat i ..< j]) @
      ''    m['' @ dec_digits j @ ''] = '', Some err)"
proof (induction ord m data size' i os rule: CodeGenData_loop.induct)
  case (1 ord m data size' i os)
  from "1.prems" have run: "i < size'" "\<not> (i < 0 \<or> int (length data) \<le> i)" by auto
  have pi: "put_int i = dec_digits (nat i)"
    using "1.prems"(1) by (simp add: put_int_def)
  show ?case
  proof (cases "nat i = j")
    case True
    with "1.prems" have "CodeGenVisitor_CodeGen ord m (data ! nat i) = Inl err" by simp
    with run True show ?thesis
      by (subst CodeGenData_loop.simps) (simp add: pi)
  next
    case False
    with "1.prems" have lt: "nat i < j" by simp
    with "1.prems" have here: "CodeGenVisitor_CodeGen ord m (data ! nat i) = Inr (lowered (nat i))"
      by simp
    from lt "1.prems"(1) have le: "nat (i + 1) \<le> j" and nn: "0 \<le> i + 1" by auto
    have rest: "\<forall>k. nat (i + 1) \<le> k \<and> k < j \<longrightarrow>
        CodeGenVisitor_CodeGen ord m (data ! k) = Inr (lowered k)"
      using "1.prems" by auto
    have upt: "[nat i ..< j] = nat i # [nat (i + 1) ..< j]"
      using lt "1.prems"(1) by (simp add: upt_conv_Cons nat_add_distrib)
    from "1.IH" [OF run here nn le "1.prems"(3,4,5) rest] run here show ?thesis
      by (subst CodeGenData_loop.simps) (simp add: upt pi)
  qed
qed

lemma CodeGenData_first_failure:
  assumes "int j < size'" "j < length data"
    and "CodeGenVisitor_CodeGen ord (build_id_to_idx_map ps) (data ! j) = Inl err"
    and "\<forall>k < j. CodeGenVisitor_CodeGen ord (build_id_to_idx_map ps) (data ! k) = Inr (lowered k)"
  shows "CodeGenData ord f ps data size' os =
     (os @ ''void '' @ f @ ''(const double* p, double* m) {\<newline>'' @
      concat (map (\<lambda>k. ''    m['' @ dec_digits k @ ''] = '' @ lowered k @ '';\<newline>'')
                [0 ..< j]) @
      ''    m['' @ dec_digits j @ ''] = '', Some err)"
proof -
  define os1 where "os1 = os @ ''void '' @ f @ ''(const double* p, double* m) {\<newline>''"
  have "CodeGenData_loop ord (build_id_to_idx_map ps) data size' 0 os1 =
     (os1 @ concat (map (\<lambda>k. ''    m['' @ dec_digits k @ ''] = '' @ lowered k @ '';\<newline>'')
                     [nat 0 ..< j]) @
      ''    m['' @ dec_digits j @ ''] = '', Some err)"
    using assms by (intro CodeGenData_loop_first_failure) auto
  then show ?thesis
    unfolding CodeGenData_def Let_def os1_def [symmetric] by (simp add: os1_def)
qed

lemma first_failing_entry:
  assumes "isl (CodeGenVisitor_CodeGen ord m (data ! k))"
  shows "\<exists>j err. j \<le> k \<and> CodeGenVisitor_CodeGen ord m (data ! j) = Inl err \<and>
     (\<forall>i < j. CodeGenVisitor_CodeGen ord m (data ! i) =
        Inr (projr (CodeGenVisitor_CodeGen ord m (data ! i))))"
proof -
  define j where "j = (LEAST j. isl (CodeGenVisitor_CodeGen ord m (data ! j)))"
  have jk: "j \<le> k" unfolding j_def using assms by (rule Least_le)
  have "isl (CodeGenVisitor_CodeGen ord m (data ! j))"
    unfolding j_def using assms by (rule LeastI)
  then obtain err where err: "CodeGenVisitor_CodeGen ord m (data ! j) = Inl err"
    by (cases "CodeGenVisitor_CodeGen ord m (data ! j)") auto
  have "\<forall>i < j. CodeGenVisitor_CodeGen ord m (data ! i) =
        Inr (projr (CodeGenVisitor_CodeGen ord m (data ! i)))"
  proof (intro allI impI)
    fix i assume "i < j"
    then have "\<not> isl (CodeGenVisitor_CodeGen ord m (data ! i))"
      unfolding j_def by (rule not_less_Least)
    then show "CodeGenVisitor_CodeGen ord m (data ! i) =
        Inr (projr (CodeGenVisitor_CodeGen ord m (data ! i)))"
      by (cases "CodeGenVisitor_CodeGen ord m (data ! i)") auto
  qed
  with jk err show ?thesis by blast
qed

lemma build_empty: "build_id_to_idx_map [] = Map.empty"
  by (simp add: build_id_to_idx_map_def id_to_idx_loop.simps)

lemma CodeGen_isl:
  "isl (CodeGen ord f ps e) \<longleftrightarrow> isl (CodeGenVisitor_CodeGen ord (build_id_to_idx_map ps) e)"
  unfolding CodeGen_def Let_def
  by (cases "CodeGenVisitor_CodeGen ord (build_id_to_idx_map ps) e") simp_all

section \<open>Properties\<close>

subsection \<open>Variables\<close>

text \<open>
  C1. Lowering a variable node whose identity is absent from the bindings fails with the
  runtime error "Variable index is not found." (the unbound-variable failure), and lowering
  a variable node whose identity is bound at index \<open>i\<close> yields exactly the text \<open>p[i]\<close>, with
  \<open>i\<close> in decimal. In particular the scalar emitter fails with that error on a variable
  that is not among its parameters.
\<close>

theorem C1_variable_binding:
  "(m (get_id v) = None \<longrightarrow>
      CodeGenVisitor_CodeGen ord m (Var v) = Inl (runtime_error ''Variable index is not found.'')) \<and>
   (m (get_id v) = Some i \<longrightarrow>
      CodeGenVisitor_CodeGen ord m (Var v) = Inr (''p['' @ dec_digits i @ '']'')) \<and>
   ((\<forall>j < length parameters. get_id (parameters ! j) \<noteq> get_id v) \<longrightarrow>
      CodeGen ord function_name parameters (Var v) =
        Inl (runtime_error ''Variable index is not found.''))"
  by (simp add: VisitVariable_def to_string_size_t_def variable_not_found_def CodeGen_def
      build_absent)

theorem C1_variable_binding_witness:
  "CodeGenVisitor_CodeGen LeftFirst Map.empty (Var (Variable 7)) =
     Inl (runtime_error ''Variable index is not found.'') \<and>
   CodeGenVisitor_CodeGen LeftFirst [7 \<mapsto> 3] (Var (Variable 7)) = Inr ''p[3]'' \<and>
   CodeGen LeftFirst ''f'' [Variable 1, Variable 2] (Var (Variable 7)) =
     Inl (runtime_error ''Variable index is not found.'')"
  using C1_variable_binding [where m = Map.empty and v = "Variable 7" and ord = LeftFirst
      and parameters = "[Variable 1, Variable 2]" and function_name = "''f''"]
    C1_variable_binding [where m = "[7 \<mapsto> 3]" and v = "Variable 7" and ord = LeftFirst
      and i = 3 and parameters = "[]"]
  by (simp add: dec_digits.simps digit_char_def nth_Cons' less_Suc_eq)

subsection \<open>Operators\<close>

text \<open>
  C3, as the code has it. With \<open>x\<close> bound at index \<open>i\<close> and \<open>y\<close> at index \<open>j\<close>, lowering
  \<open>Sin(x)\<close> yields exactly \<open>sin(p[i])\<close> and lowering \<open>x / y\<close> yields exactly \<open>(p[i] / p[j])\<close>.
  Lowering \<open>Pow(x, 2)\<close> yields exactly \<open>pow(p[i], 2.000000)\<close>: the exponent is a constant
  node, and constant nodes are printed by \<^verbatim>\<open>std::to_string\<close>, in fixed notation with six
  digits after the point.
\<close>

theorem C3_operator_fidelity:
  "m (get_id x) = Some i \<and> m (get_id y) = Some j \<longrightarrow>
     CodeGenVisitor_CodeGen ord m (Sin (Var x)) = Inr (''sin(p['' @ dec_digits i @ ''])'') \<and>
     CodeGenVisitor_CodeGen ord m (PowE (Var x) (Constant double_two)) =
       Inr (''pow(p['' @ dec_digits i @ ''], 2.000000)'') \<and>
     CodeGenVisitor_CodeGen ord m (Division (Var x) (Var y)) =
       Inr (''(p['' @ dec_digits i @ ''] / p['' @ dec_digits j @ ''])'')"
  by (simp add: VisitVariable_def VisitConstant_def VisitUnary_def VisitBinary_def
      VisitDivision_def eval2_ok to_string_size_t_def to_string_double_two)

theorem C3_operator_fidelity_witness:
  "CodeGenVisitor_CodeGen LeftFirst [5 \<mapsto> 0, 6 \<mapsto> 1] (Sin (Var (Variable 5))) = Inr ''sin(p[0])'' \<and>
   CodeGenVisitor_CodeGen LeftFirst [5 \<mapsto> 0, 6 \<mapsto> 1]
     (PowE (Var (Variable 5)) (Constant double_two)) = Inr ''pow(p[0], 2.000000)'' \<and>
   CodeGenVisitor_CodeGen LeftFirst [5 \<mapsto> 0, 6 \<mapsto> 1]
     (Division (Var (Variable 5)) (Var (Variable 6))) = Inr ''(p[0] / p[1])''"
  using C3_operator_fidelity [where m = "[5 \<mapsto> 0, 6 \<mapsto> 1]" and x = "Variable 5"
      and y = "Variable 6" and i = 0 and j = 1 and ord = LeftFirst]
  by (simp add: dec_digits.simps digit_char_def)

text \<open>
  The claim as stated fails: with \<open>x\<close> bound at index 0, lowering \<open>Pow(x, 2)\<close> does not
  yield \<open>pow(p[0], 2)\<close>, whichever operand is evaluated first.
\<close>

theorem C3_counterexample:
  "CodeGenVisitor_CodeGen LeftFirst [5 \<mapsto> 0] (PowE (Var (Variable 5)) (Constant double_two)) \<noteq>
     Inr ''pow(p[0], 2)'' \<and>
   CodeGenVisitor_CodeGen RightFirst [5 \<mapsto> 0] (PowE (Var (Variable 5)) (Constant double_two)) \<noteq>
     Inr ''pow(p[0], 2)''"
  by (simp add: VisitVariable_def VisitConstant_def VisitBinary_def eval2_ok
      to_string_size_t_def to_string_double_two dec_digits.simps digit_char_def)

subsection \<open>Sums and products\<close>

text \<open>
  C4. Lowering the addition with constant 2 and terms \<open>(x, 1.0)\<close>, \<open>(y, 3.0)\<close>, with \<open>x\<close> bound
  at index \<open>i\<close> and \<open>y\<close> at index \<open>j\<close>, yields exactly \<open>(2 + p[i] + (3 * p[j]))\<close>. In general,
  when the terms lower to the texts \<open>lowered e\<close>, the addition lowers to the opening parenthesis,
  the constant, and then for every term in order \<open> + \<close> followed by the term's text alone
  when its coefficient is exactly 1.0, and by \<open>(coeff * text)\<close> otherwise, and the closing
  parenthesis.
\<close>

theorem C4_addition:
  "(m (get_id x) = Some i \<and> m (get_id y) = Some j \<longrightarrow>
      CodeGenVisitor_CodeGen ord m (Addition double_two [(Var x, double_one), (Var y, double_three)]) =
        Inr (''(2 + p['' @ dec_digits i @ ''] + (3 * p['' @ dec_digits j @ '']))'')) \<and>
   ((\<forall>(e, c) \<in> set terms. CodeGenVisitor_CodeGen ord m e = Inr (lowered e)) \<longrightarrow>
      CodeGenVisitor_CodeGen ord m (Addition c terms) =
        Inr (''('' @ put_double c @
             concat (map (\<lambda>(e, c_i). '' + '' @
               (if c_i = double_one then lowered e else ''('' @ put_double c_i @ '' * '' @ lowered e @ '')''))
               terms) @ '')''))"
proof (intro conjI impI)
  assume "m (get_id x) = Some i \<and> m (get_id y) = Some j"
  then show "CodeGenVisitor_CodeGen ord m
      (Addition double_two [(Var x, double_one), (Var y, double_three)]) =
        Inr (''(2 + p['' @ dec_digits i @ ''] + (3 * p['' @ dec_digits j @ '']))'')"
    by (simp add: VisitVariable_def to_string_size_t_def double_eq_one three_neq_one
        put_double_two put_double_three)
next
  assume "\<forall>(e, c) \<in> set terms. CodeGenVisitor_CodeGen ord m e = Inr (lowered e)"
  then show "CodeGenVisitor_CodeGen ord m (Addition c terms) =
        Inr (''('' @ put_double c @
             concat (map (\<lambda>(e, c_i). '' + '' @
               (if c_i = double_one then lowered e else ''('' @ put_double c_i @ '' * '' @ lowered e @ '')''))
               terms) @ '')'')"
    by (simp add: VisitAddition_loop_ok)
qed

theorem C4_addition_witness:
  "CodeGenVisitor_CodeGen LeftFirst [5 \<mapsto> 0, 6 \<mapsto> 1]
     (Addition double_two [(Var (Variable 5), double_one), (Var (Variable 6), double_three)]) =
     Inr ''(2 + p[0] + (3 * p[1]))'' \<and>
   CodeGenVisitor_CodeGen LeftFirst [5 \<mapsto> 0, 6 \<mapsto> 1]
     (Addition double_three [(Var (Variable 6), double_two), (Var (Variable 5), double_one)]) =
     Inr ''(3 + (2 * p[1]) + p[0])''"
  using C4_addition [where m = "[5 \<mapsto> 0, 6 \<mapsto> 1]" and x = "Variable 5" and y = "Variable 6"
      and i = 0 and j = 1 and ord = LeftFirst and c = double_three
      and terms = "[(Var (Variable 6), double_two), (Var (Variable 5), double_one)]"
      and lowered = "\<lambda>e. if e = Var (Variable 5) then ''p[0]'' else ''p[1]''"]
  by (simp add: dec_digits.simps digit_char_def VisitVariable_def to_string_size_t_def
      put_double_two put_double_three three_neq_one)

text \<open>
  C5. When the bases lower to the texts \<open>lowered b\<close> and the exponents other than the literal
  constant 1 to \<open>lowered e\<close>, a multiplication lowers to the opening parenthesis, the constant
  factor, and then for every factor in order \<open> * \<close> followed by the base's text alone when
  the exponent is the literal constant 1, and by \<open>pow(base, exponent)\<close> otherwise, and the
  closing parenthesis.
\<close>

theorem C5_multiplication:
  "(\<forall>(b, e) \<in> set factors. CodeGenVisitor_CodeGen ord m b = Inr (lowered b) \<and>
      (e \<noteq> Constant double_one \<longrightarrow> CodeGenVisitor_CodeGen ord m e = Inr (lowered e))) \<longrightarrow>
   CodeGenVisitor_CodeGen ord m (Multiplication c factors) =
     Inr (''('' @ put_double c @
          concat (map (\<lambda>(b, e). '' * '' @
            (if e = Constant double_one then lowered b
             else ''pow('' @ lowered b @ '', '' @ lowered e @ '')'')) factors) @ '')'')"
  by (simp add: VisitMultiplication_loop_ok)

theorem C5_multiplication_witness:
  "CodeGenVisitor_CodeGen LeftFirst [5 \<mapsto> 0, 6 \<mapsto> 1]
     (Multiplication double_two
        [(Var (Variable 5), Constant double_one), (Var (Variable 6), Var (Variable 5))]) =
     Inr ''(2 * p[0] * pow(p[1], p[0]))''"
  using C5_multiplication [where m = "[5 \<mapsto> 0, 6 \<mapsto> 1]" and ord = LeftFirst and c = double_two
      and factors = "[(Var (Variable 5), Constant double_one), (Var (Variable 6), Var (Variable 5))]"
      and lowered = "\<lambda>e. if e = Var (Variable 5) then ''p[0]'' else ''p[1]''"]
  by (simp add: dec_digits.simps digit_char_def VisitVariable_def to_string_size_t_def
      put_double_two)

subsection \<open>Repeated parameters\<close>

text \<open>
  C10. When the same variable identity occurs more than once in the parameter list, the
  map from identities to indices keeps the index \<open>k\<close> of the first occurrence: a later
  occurrence at \<open>k'\<close> does not overwrite it, and every reference to the variable is lowered
  to \<open>p[k]\<close>.
\<close>

theorem C10_first_occurrence:
  "k < length parameters \<and> (\<forall>j < k. get_id (parameters ! j) \<noteq> get_id (parameters ! k)) \<and>
   k' < length parameters \<and> get_id (parameters ! k') = get_id (parameters ! k) \<longrightarrow>
     build_id_to_idx_map parameters (get_id (parameters ! k')) = Some k \<and>
     CodeGenVisitor_CodeGen ord (build_id_to_idx_map parameters) (Var (parameters ! k')) =
       Inr (''p['' @ dec_digits k @ '']'')"
  by (simp add: build_first VisitVariable_def to_string_size_t_def)

theorem C10_first_occurrence_witness:
  "build_id_to_idx_map [Variable 4, Variable 9, Variable 4] 4 = Some 0 \<and>
   CodeGenVisitor_CodeGen LeftFirst (build_id_to_idx_map [Variable 4, Variable 9, Variable 4])
     (Var (Variable 4)) = Inr ''p[0]''"
  using C10_first_occurrence [where parameters = "[Variable 4, Variable 9, Variable 4]"
      and k = 0 and k' = 2 and ord = LeftFirst]
  by (simp add: dec_digits.simps digit_char_def)

subsection \<open>The batch emitter\<close>

text \<open>
  C7, as the code has it. The batch emitter makes no check of the shape: \<^verbatim>\<open>CodeGenData\<close>
  receives the flattened size only, and \<^verbatim>\<open>rows\<close> and \<^verbatim>\<open>cols\<close> go to \<^verbatim>\<open>CodeGenMeta\<close> alone,
  which writes them and cannot fail. Whenever each of the \<open>size\<close> entries lowers, the
  emitter succeeds and has written after the header exactly one statement
  \<open>m[i] = <lowered data[i]>;\<close> for each index \<open>i\<close> from \<open>0\<close> up to \<open>size\<close> in order, and the
  closing brace. When it leaves with an exception, this is the exception of lowering one of
  the entries (or the array was shorter than \<open>size\<close>).
\<close>

theorem C7_batch_statements:
  "((\<forall>k. int k < size' \<longrightarrow>
       k < length data \<and>
       CodeGenVisitor_CodeGen ord (build_id_to_idx_map parameters) (data ! k) = Inr (lowered k)) \<longrightarrow>
    CodeGenData ord function_name parameters data size' os =
      (os @ ''void '' @ function_name @ ''(const double* p, double* m) {\<newline>'' @
       concat (map (\<lambda>k. ''    m['' @ dec_digits k @ ''] = '' @ lowered k @ '';\<newline>'')
                 [0 ..< nat size']) @
       ''}\<newline>'', None)) \<and>
   (snd (CodeGenData ord function_name parameters data size' os) = Some err \<longrightarrow>
      err = out_of_bounds_read \<or>
      (\<exists>k. k < length data \<and> int k < size' \<and>
         CodeGenVisitor_CodeGen ord (build_id_to_idx_map parameters) (data ! k) = Inl err))"
  using CodeGenData_ok [of size' data ord parameters lowered function_name os]
    CodeGenData_errors [of ord function_name parameters data size' os err]
  by blast

theorem C7_batch_statements_witness:
  "CodeGenData LeftFirst ''f'' [Variable 5] [Sin (Var (Variable 5)), Constant double_two] 2 [] =
     (''void f(const double* p, double* m) {\<newline>    m[0] = sin(p[0]);\<newline>    m[1] = 2.000000;\<newline>}\<newline>'',
      None)"
proof -
  have c5: "build_id_to_idx_map [Variable 5] 5 = Some 0"
    using build_first [of 0 "[Variable 5]"] by simp
  have "\<forall>k. int k < 2 \<longrightarrow>
       k < length [Sin (Var (Variable 5)), Constant double_two] \<and>
       CodeGenVisitor_CodeGen LeftFirst (build_id_to_idx_map [Variable 5])
         ([Sin (Var (Variable 5)), Constant double_two] ! k) =
       Inr ((\<lambda>k. if k = 0 then ''sin(p[0])'' else ''2.000000'') k)"
    by (simp add: less_Suc_eq numeral_2_eq_2 nth_Cons' VisitVariable_def VisitUnary_def
        VisitConstant_def c5 to_string_size_t_def dec_digits_less_10 digit_char_def
        to_string_double_two all_conj_distrib)
  with C7_batch_statements [where ord = LeftFirst and function_name = "''f''"
      and parameters = "[Variable 5]" and data = "[Sin (Var (Variable 5)), Constant double_two]"
      and size' = 2 and os = "[]"
      and lowered = "\<lambda>k. if k = 0 then ''sin(p[0])'' else ''2.000000''"]
  show ?thesis
    by (simp add: numeral_2_eq_2 dec_digits_less_10 digit_char_def)
qed

text \<open>
  The claim as stated fails: a batch of one entry is emitted without any failure, and the
  metadata for a 2 by 2 matrix is written next to it, although 1 is not 2 times 2.
\<close>

theorem C7_counterexample:
  "CodeGenData LeftFirst ''f'' [] [Constant double_one] 1 [] =
     (''void f(const double* p, double* m) {\<newline>    m[0] = 1.000000;\<newline>}\<newline>'', None) \<and>
   CodeGenData RightFirst ''f'' [] [Constant double_one] 1 [] =
     (''void f(const double* p, double* m) {\<newline>    m[0] = 1.000000;\<newline>}\<newline>'', None) \<and>
   (1 :: int) \<noteq> 2 * 2 \<and>
   CodeGenMeta ''f'' 0 2 2
     (''void f(const double* p, double* m) {\<newline>    m[0] = 1.000000;\<newline>}\<newline>'') =
     ''void f(const double* p, double* m) {\<newline>    m[0] = 1.000000;\<newline>}\<newline>'' @
     ''typedef struct {\<newline>    /* p: input, vector */\<newline>    struct { int size; } p;\<newline>'' @
     ''    /* m: output, matrix */\<newline>    struct { int rows; int cols; } m;\<newline>'' @
     ''} f_meta_t;\<newline>f_meta_t f_meta() { return {{0}, {2, 2}}; }\<newline>''"
  by (simp add: CodeGenData_def CodeGenData_loop.simps VisitConstant_def to_string_double_one
      put_int_0 CodeGenMeta_def put_int_def dec_digits_less_10 digit_char_def)

subsection \<open>Metadata\<close>

text \<open>
  C8. When the expression lowers to the text \<open>s\<close>, the scalar emitter returns the function,
  the record type and an accessor whose literal for the input size is the length of the
  parameter list in decimal. \<^verbatim>\<open>CodeGenMeta\<close>, called with the length of the parameter list
  and with \<open>rows\<close> and \<open>cols\<close>, appends the record type and an accessor whose three literals
  are that length, \<open>rows\<close> and \<open>cols\<close>. Read as numbers, the literals are the length of the
  parameter list, \<open>rows\<close> and \<open>cols\<close> again.
\<close>

theorem C8_metadata:
  "(CodeGenVisitor_CodeGen ord (build_id_to_idx_map parameters) e = Inr s \<longrightarrow>
      CodeGen ord function_name parameters e =
        Inr (''double '' @ function_name @ ''(const double* p) {\<newline>'' @
             ''    return '' @ s @ '';\<newline>'' @
             ''}\<newline>'' @
             ''typedef struct {\<newline>'' @
             ''    /* p: input, vector */\<newline>'' @
             ''    struct { int size; } p;\<newline>'' @
             ''} '' @ function_name @ ''_meta_t;\<newline>'' @
             function_name @ ''_meta_t '' @ function_name @ ''_meta() { return {{'' @
             dec_digits (length parameters) @ ''}}; }\<newline>'')) \<and>
   CodeGenMeta function_name (int (length parameters)) rows cols os =
     os @
     ''typedef struct {\<newline>'' @
     ''    /* p: input, vector */\<newline>'' @
     ''    struct { int size; } p;\<newline>'' @
     ''    /* m: output, matrix */\<newline>'' @
     ''    struct { int rows; int cols; } m;\<newline>'' @
     ''} '' @ function_name @ ''_meta_t;\<newline>'' @
     function_name @ ''_meta_t '' @ function_name @ ''_meta() { return {{'' @
     dec_digits (length parameters) @ ''}, {'' @ put_int rows @ '', '' @ put_int cols @
     ''}}; }\<newline>'' \<and>
   digits_value (dec_digits (length parameters)) = length parameters \<and>
   int_value (put_int rows) = rows \<and> int_value (put_int cols) = cols"
  by (simp add: CodeGen_def scalar_meta_def to_string_size_t_def CodeGenMeta_def put_int_int
      digits_value_dec_digits int_value_put_int)

theorem C8_metadata_witness:
  "CodeGen LeftFirst ''f'' [Variable 5, Variable 6] (Sin (Var (Variable 6))) =
     Inr (''double f(const double* p) {\<newline>    return sin(p[1]);\<newline>}\<newline>'' @
          ''typedef struct {\<newline>    /* p: input, vector */\<newline>    struct { int size; } p;\<newline>'' @
          ''} f_meta_t;\<newline>f_meta_t f_meta() { return {{2}}; }\<newline>'') \<and>
   CodeGenMeta ''f'' 2 3 4 [] =
     ''typedef struct {\<newline>    /* p: input, vector */\<newline>    struct { int size; } p;\<newline>'' @
     ''    /* m: output, matrix */\<newline>    struct { int rows; int cols; } m;\<newline>'' @
     ''} f_meta_t;\<newline>f_meta_t f_meta() { return {{2}, {3, 4}}; }\<newline>''"
proof -
  have b6: "build_id_to_idx_map [Variable 5, Variable 6] 6 = Some 1"
    using build_first [of 1 "[Variable 5, Variable 6]"] by simp
  have v: "CodeGenVisitor_CodeGen LeftFirst (build_id_to_idx_map [Variable 5, Variable 6])
      (Sin (Var (Variable 6))) = Inr ''sin(p[1])''"
    by (simp add: VisitVariable_def VisitUnary_def b6 to_string_size_t_def dec_digits_less_10
        digit_char_def)
  from C8_metadata [where ord = LeftFirst and function_name = "''f''"
      and parameters = "[Variable 5, Variable 6]" and e = "Sin (Var (Variable 6))"
      and s = "''sin(p[1])''" and rows = 3 and cols = 4 and os = "[]"] v
  show ?thesis
    by (simp add: dec_digits_less_10 digit_char_def put_int_def)
qed

subsection \<open>Constants\<close>

text \<open>
  C2, as the code has it. Lowering a constant node emits \<^verbatim>\<open>std::to_string\<close> of its value. For
  every finite constant \<open>c\<close> this is the decimal text of \<open>c\<close> rounded to six digits after the
  point: the number it denotes is within \<open>0.0000005\<close> of \<open>c\<close>. When \<open>c\<close> is a multiple of
  \<open>0.000001\<close> the text denotes \<open>c\<close> exactly and reads back as \<open>c\<close>.
\<close>

theorem C2_constant_text:
  "is_finite c \<longrightarrow>
     CodeGenVisitor_CodeGen ord m (Constant c) = Inr (to_string_double c) \<and>
     \<bar>decimal_value (to_string_double c) - valof c\<bar> \<le> 1 / (2 * 10 ^ 6) \<and>
     (valof c * 10 ^ 6 \<in> \<int> \<longrightarrow>
        decimal_value (to_string_double c) = valof c \<and> parses_to (to_string_double c) c)"
proof (intro impI conjI)
  show "CodeGenVisitor_CodeGen ord m (Constant c) = Inr (to_string_double c)"
    by (simp add: VisitConstant_def)
next
  assume "is_finite c"
  then show "\<bar>decimal_value (to_string_double c) - valof c\<bar> \<le> 1 / (2 * 10 ^ 6)"
    by (rule to_string_double_close)
next
  assume "is_finite c" "valof c * 10 ^ 6 \<in> \<int>"
  then show "decimal_value (to_string_double c) = valof c"
    by (rule to_string_double_exact)
next
  assume a: "is_finite c" "valof c * 10 ^ 6 \<in> \<int>"
  then have "decimal_value (to_string_double c) = valof c"
    by (rule to_string_double_exact)
  with a(1) show "parses_to (to_string_double c) c"
    by (simp add: parses_to_def has_minus_to_string_double)
qed

theorem C2_constant_text_witness:
  "CodeGenVisitor_CodeGen LeftFirst Map.empty (Constant double_two) = Inr ''2.000000'' \<and>
   decimal_value ''2.000000'' = valof double_two \<and> parses_to ''2.000000'' double_two"
  using C2_constant_text [where c = double_two and ord = LeftFirst and m = Map.empty]
  by (simp add: valof_two to_string_double_two)

text \<open>
  The claim as stated fails at the constant \<open>2\<^sup>-\<^sup>3\<^sup>0\<close>, a double: its text is \<open>0.000000\<close>, which
  denotes 0, and the nearest double to 0 is 0, not \<open>2\<^sup>-\<^sup>3\<^sup>0\<close>.
\<close>

theorem C2_counterexample:
  "CodeGenVisitor_CodeGen LeftFirst Map.empty (Constant 0x3E10000000000000) = Inr ''0.000000'' \<and>
   decimal_value ''0.000000'' = 0 \<and>
   valof 0x3E10000000000000 = 1 / 2 ^ 30 \<and>
   \<not> parses_to ''0.000000'' 0x3E10000000000000"
proof -
  have "\<not> parses_to ''0.000000'' 0x3E10000000000000"
  proof
    assume "parses_to ''0.000000'' 0x3E10000000000000"
    then have "\<bar>valof 0x3E10000000000000 - decimal_value ''0.000000''\<bar> \<le>
        \<bar>valof 0 - decimal_value ''0.000000''\<bar>"
      unfolding parses_to_def using valof_zero(1) by blast
    then show False
      by (simp add: valof_two_pow_minus_30 decimal_value_zero_text valof_zero(2))
  qed
  then show ?thesis
    by (simp add: VisitConstant_def to_string_double_two_pow_minus_30 decimal_value_zero_text
        valof_two_pow_minus_30)
qed

subsection \<open>Unsupported kinds\<close>

text \<open>
  C6, as the code has it. Lowering an if-then-else node or an uninterpreted-function node
  fails with the exception for that kind. For every expression that contains such a node,
  lowering fails, whichever order the compiler chose for the operands of \<^verbatim>\<open>+\<close>, with an
  exception that the expression explains: the exception for a kind of node that occurs in
  it, or the exception for a variable without index that occurs in it; when every variable
  of the expression has an index, the failure is one of the two for unsupported kinds. The
  scalar emitter leaves with the visitor's exception and returns no text. The batch
  emitter, given the expression as entry \<open>k\<close>, leaves with the visitor's exception for the
  first entry \<open>j \<le> k\<close> that fails to lower, and the caller's stream has by then received
  exactly the header of the function, the complete statements of the entries before \<open>j\<close>,
  and the beginning \<^verbatim>\<open>    m[j] = \<close> of the statement of entry \<open>j\<close>: it ends with the blank
  after the equals sign, and the closing brace is not written.
\<close>

theorem C6_unsupported_rejected:
  "CodeGenVisitor_CodeGen ord m (IfThenElse e1 e2) = Inl if_then_else_unsupported \<and>
   CodeGenVisitor_CodeGen ord m (UninterpretedFunction name args) =
     Inl uninterpreted_function_unsupported \<and>
   (contains_unsupported e \<longrightarrow>
     (\<exists>err. CodeGenVisitor_CodeGen ord m e = Inl err \<and> explained m e err) \<and>
     ((\<forall>v. subexpr (Var v) e \<longrightarrow> m (get_id v) \<noteq> None) \<longrightarrow>
        CodeGenVisitor_CodeGen ord m e = Inl if_then_else_unsupported \<or>
        CodeGenVisitor_CodeGen ord m e = Inl uninterpreted_function_unsupported) \<and>
     (\<exists>err. CodeGenVisitor_CodeGen ord (build_id_to_idx_map parameters) e = Inl err \<and>
        explained (build_id_to_idx_map parameters) e err \<and>
        CodeGen ord function_name parameters e = Inl err) \<and>
     (k < length data \<and> int k < size' \<and> data ! k = e \<longrightarrow>
        (\<exists>j err lowered.
           j \<le> k \<and>
           (\<forall>i < j. CodeGenVisitor_CodeGen ord (build_id_to_idx_map parameters) (data ! i) =
              Inr (lowered i)) \<and>
           CodeGenVisitor_CodeGen ord (build_id_to_idx_map parameters) (data ! j) = Inl err \<and>
           explained (build_id_to_idx_map parameters) (data ! j) err \<and>
           CodeGenData ord function_name parameters data size' os =
             (os @ ''void '' @ function_name @ ''(const double* p, double* m) {\<newline>'' @
              concat (map (\<lambda>i. ''    m['' @ dec_digits i @ ''] = '' @ lowered i @ '';\<newline>'')
                        [0 ..< j]) @
              ''    m['' @ dec_digits j @ ''] = '', Some err) \<and>
           last (fst (CodeGenData ord function_name parameters data size' os)) = CHR '' '')))"
proof (intro conjI impI, goal_cases)
  case 1
  show ?case by simp
next
  case 2
  show ?case by simp
next
  case 3
  then show ?case by (rule contains_unsupported_fails)
next
  case 4
  from contains_unsupported_fails [OF 4(1), of ord m]
  obtain err where "CodeGenVisitor_CodeGen ord m e = Inl err" "explained m e err" by auto
  with 4(2) show ?case unfolding explained_def by blast
next
  case 5
  from contains_unsupported_fails [OF 5, of ord "build_id_to_idx_map parameters"]
  obtain err where err: "CodeGenVisitor_CodeGen ord (build_id_to_idx_map parameters) e = Inl err"
    "explained (build_id_to_idx_map parameters) e err" by auto
  then have "CodeGen ord function_name parameters e = Inl err"
    unfolding CodeGen_def Let_def by simp
  with err show ?case by blast
next
  case 6
  let ?b = "build_id_to_idx_map parameters"
  from contains_unsupported_fails [OF 6(1), of ord ?b] 6(2)
  have "isl (CodeGenVisitor_CodeGen ord ?b (data ! k))" by auto
  from first_failing_entry [OF this]
  obtain j err where j: "j \<le> k" "CodeGenVisitor_CodeGen ord ?b (data ! j) = Inl err"
    "\<forall>i < j. CodeGenVisitor_CodeGen ord ?b (data ! i) =
        Inr (projr (CodeGenVisitor_CodeGen ord ?b (data ! i)))"
    by blast
  define lowered where "lowered = (\<lambda>i. projr (CodeGenVisitor_CodeGen ord ?b (data ! i)))"
  from j(3) have low: "\<forall>i < j. CodeGenVisitor_CodeGen ord ?b (data ! i) = Inr (lowered i)"
    unfolding lowered_def by simp
  from j(1) 6(2) have jb: "int j < size'" "j < length data" by auto
  from explained_aux(1) [of ord ?b "data ! j" err] j(2)
  have ex: "explained ?b (data ! j) err" by simp
  have d: "CodeGenData ord function_name parameters data size' os =
      (os @ ''void '' @ function_name @ ''(const double* p, double* m) {\<newline>'' @
       concat (map (\<lambda>i. ''    m['' @ dec_digits i @ ''] = '' @ lowered i @ '';\<newline>'')
                 [0 ..< j]) @
       ''    m['' @ dec_digits j @ ''] = '', Some err)"
    using jb j(2) low by (rule CodeGenData_first_failure)
  have l: "last (fst (CodeGenData ord function_name parameters data size' os)) = CHR '' ''"
    unfolding d by simp
  from j(1) low j(2) ex d l show ?case
    by (intro exI [of _ j] exI [of _ err] exI [of _ lowered] conjI)
qed

theorem C6_unsupported_rejected_witness:
  "CodeGenVisitor_CodeGen RightFirst Map.empty
     (Sin (IfThenElse (Constant double_one) (Constant double_two))) =
     Inl (runtime_error ''Codegen does not support if-then-else expressions.'') \<and>
   CodeGen RightFirst ''f'' [] (Sin (IfThenElse (Constant double_one) (Constant double_two))) =
     Inl (runtime_error ''Codegen does not support if-then-else expressions.'') \<and>
   CodeGenData RightFirst ''f'' []
     [Constant double_two, Sin (IfThenElse (Constant double_one) (Constant double_two))] 2 [] =
     (''void f(const double* p, double* m) {\<newline>    m[0] = 2.000000;\<newline>    m[1] = '',
      Some (runtime_error ''Codegen does not support if-then-else expressions.''))"
proof -
  let ?e = "Sin (IfThenElse (Constant double_one) (Constant double_two))"
  let ?data = "[Constant double_two, ?e]"
  have cu: "contains_unsupported ?e"
    by (simp add: contains_unsupported_iff)
  have nv: "\<forall>v. subexpr (Var v) ?e \<longrightarrow> Map.empty (get_id v) \<noteq> (None :: nat option)"
    by (simp add: subexpr_iff)
  have k: "1 < length ?data \<and> int 1 < 2 \<and> ?data ! 1 = ?e" by simp
  note t = C6_unsupported_rejected [where e = ?e and ord = RightFirst and m = Map.empty
      and function_name = "''f''" and parameters = "[]" and data = ?data and k = 1
      and size' = 2 and os = "[]"]
  from t cu nv have v: "CodeGenVisitor_CodeGen RightFirst Map.empty ?e =
      Inl (runtime_error ''Codegen does not support if-then-else expressions.'')"
    by (simp add: VisitUnary_def if_then_else_unsupported_def)
  from t cu have s: "CodeGen RightFirst ''f'' [] ?e =
      Inl (runtime_error ''Codegen does not support if-then-else expressions.'')"
    by (simp add: build_empty VisitUnary_def if_then_else_unsupported_def)
  from t cu k obtain j err lowered where j: "j \<le> 1"
    "\<forall>i < j. CodeGenVisitor_CodeGen RightFirst (build_id_to_idx_map []) (?data ! i) =
       Inr (lowered i)"
    "CodeGenVisitor_CodeGen RightFirst (build_id_to_idx_map []) (?data ! j) = Inl err"
    "CodeGenData RightFirst ''f'' [] ?data 2 [] =
       ([] @ ''void '' @ ''f'' @ ''(const double* p, double* m) {\<newline>'' @
        concat (map (\<lambda>i. ''    m['' @ dec_digits i @ ''] = '' @ lowered i @ '';\<newline>'')
                  [0 ..< j]) @
        ''    m['' @ dec_digits j @ ''] = '', Some err)"
    by blast
  have j1: "j = 1"
  proof (rule ccontr)
    assume "j \<noteq> 1"
    with j(1) have "j = 0" by simp
    with j(3) show False by (simp add: VisitConstant_def)
  qed
  from j(2) j1 have l0: "lowered 0 = ''2.000000''"
    by (simp add: VisitConstant_def to_string_double_two)
  from j(3) j1 have e: "err = runtime_error ''Codegen does not support if-then-else expressions.''"
    by (simp add: VisitUnary_def if_then_else_unsupported_def)
  from j(4) have d: "CodeGenData RightFirst ''f'' [] ?data 2 [] =
     (''void f(const double* p, double* m) {\<newline>    m[0] = 2.000000;\<newline>    m[1] = '',
      Some (runtime_error ''Codegen does not support if-then-else expressions.''))"
    unfolding j1 e by (simp add: l0 dec_digits_less_10 digit_char_def)
  from v s d show ?thesis by (intro conjI)
qed

text \<open>
  C6 as the specification states it fails twice. An addition whose first term is a variable
  without index and whose second term is an if-then-else fails with the exception for the
  variable, under either operand order. The batch emitter, given an if-then-else as its
  only entry, has written the header of the function and the beginning of the first
  statement to the caller's stream when the exception leaves it.
\<close>

theorem C6_counterexample:
  "CodeGenVisitor_CodeGen LeftFirst Map.empty
     (Addition double_two
        [(Var (Variable 1), double_one),
         (IfThenElse (Constant double_one) (Constant double_two), double_one)]) =
     Inl (runtime_error ''Variable index is not found.'') \<and>
   CodeGenVisitor_CodeGen RightFirst Map.empty
     (Addition double_two
        [(Var (Variable 1), double_one),
         (IfThenElse (Constant double_one) (Constant double_two), double_one)]) =
     Inl (runtime_error ''Variable index is not found.'') \<and>
   CodeGenData LeftFirst ''f'' [] [IfThenElse (Constant double_one) (Constant double_two)] 1 [] =
     (''void f(const double* p, double* m) {\<newline>    m[0] = '',
      Some (runtime_error ''Codegen does not support if-then-else expressions.'')) \<and>
   CodeGenData RightFirst ''f'' [] [IfThenElse (Constant double_one) (Constant double_two)] 1 [] =
     (''void f(const double* p, double* m) {\<newline>    m[0] = '',
      Some (runtime_error ''Codegen does not support if-then-else expressions.''))"
  by (simp add: VisitVariable_def double_eq_one variable_not_found_def
      if_then_else_unsupported_def CodeGenData_def CodeGenData_loop.simps put_int_0)

subsection \<open>Determinism\<close>

text \<open>
  C9. The emitters are functions of their arguments, so two calls on the same expression
  and the same parameter list give the same text. The one choice that C++ leaves to the
  compiler here, the order in which the operands of \<^verbatim>\<open>+\<close> are evaluated, does not change the
  text either, on any input: under any two orders the scalar emitter returns the same text
  or fails under both, and the batch emitter leaves the same text in the caller's stream,
  also when it fails, and fails under both orders or under none. (Only which of two
  exceptions leaves a failing call can depend on the order.)
\<close>

theorem C9_determinism:
  "(CodeGen ord function_name parameters e = Inr emitted \<longleftrightarrow>
      CodeGen ord' function_name parameters e = Inr emitted) \<and>
   (isl (CodeGen ord function_name parameters e) \<longleftrightarrow>
      isl (CodeGen ord' function_name parameters e)) \<and>
   fst (CodeGenData ord function_name parameters data size' os) =
     fst (CodeGenData ord' function_name parameters data size' os) \<and>
   (snd (CodeGenData ord function_name parameters data size' os) = None \<longleftrightarrow>
      snd (CodeGenData ord' function_name parameters data size' os) = None)"
  using CodeGen_order_iff [of ord function_name parameters e emitted ord']
    isl_order_independent [of ord "build_id_to_idx_map parameters" e ord']
    CodeGenData_stream_order [of ord function_name parameters data size' os ord']
  by (simp add: CodeGen_isl)

theorem C9_determinism_witness:
  "CodeGen RightFirst ''f'' [Variable 5, Variable 6] (Division (Var (Variable 5)) (Var (Variable 6))) =
     CodeGen LeftFirst ''f'' [Variable 5, Variable 6] (Division (Var (Variable 5)) (Var (Variable 6))) \<and>
   \<not> isl (CodeGen RightFirst ''f'' [Variable 5, Variable 6]
     (Division (Var (Variable 5)) (Var (Variable 6)))) \<and>
   CodeGenData LeftFirst ''f'' []
     [Division (Var (Variable 1)) (IfThenElse (Constant double_one) (Constant double_two))] 1 [] =
     (''void f(const double* p, double* m) {\<newline>    m[0] = '',
      Some (runtime_error ''Variable index is not found.'')) \<and>
   CodeGenData RightFirst ''f'' []
     [Division (Var (Variable 1)) (IfThenElse (Constant double_one) (Constant double_two))] 1 [] =
     (''void f(const double* p, double* m) {\<newline>    m[0] = '',
      Some (runtime_error ''Codegen does not support if-then-else expressions.'')) \<and>
   fst (CodeGenData RightFirst ''f'' []
     [Division (Var (Variable 1)) (IfThenElse (Constant double_one) (Constant double_two))] 1 []) =
   fst (CodeGenData LeftFirst ''f'' []
     [Division (Var (Variable 1)) (IfThenElse (Constant double_one) (Constant double_two))] 1 [])"
proof -
  let ?ps = "[Variable 5, Variable 6]"
  let ?e = "Division (Var (Variable 5)) (Var (Variable 6))"
  let ?bad = "[Division (Var (Variable 1)) (IfThenElse (Constant double_one) (Constant double_two))]"
  have b5: "build_id_to_idx_map ?ps 5 = Some 0"
    using build_first [of 0 ?ps] by simp
  have b6: "build_id_to_idx_map ?ps 6 = Some 1"
    using build_first [of 1 ?ps] by simp
  have v: "CodeGenVisitor_CodeGen LeftFirst (build_id_to_idx_map ?ps) ?e = Inr ''(p[0] / p[1])''"
    by (simp add: VisitVariable_def VisitDivision_def eval2_ok b5 b6 to_string_size_t_def
        dec_digits_less_10 digit_char_def)
  obtain t where t: "CodeGen LeftFirst ''f'' ?ps ?e = Inr t"
    unfolding CodeGen_def Let_def v by simp
  note d = C9_determinism [where ord = LeftFirst and ord' = RightFirst
      and function_name = "''f''" and parameters = ?ps and e = ?e and emitted = t
      and data = "[]" and size' = 0 and os = "[]"]
  from d t have 1: "CodeGen RightFirst ''f'' ?ps ?e = CodeGen LeftFirst ''f'' ?ps ?e"
    by simp
  from d t have 2: "\<not> isl (CodeGen RightFirst ''f'' ?ps ?e)" by simp
  have 3: "CodeGenData LeftFirst ''f'' [] ?bad 1 [] =
     (''void f(const double* p, double* m) {\<newline>    m[0] = '',
      Some (runtime_error ''Variable index is not found.''))"
    by (simp add: CodeGenData_def CodeGenData_loop.simps put_int_0 build_empty VisitVariable_def
        VisitDivision_def eval2_def variable_not_found_def)
  have 4: "CodeGenData RightFirst ''f'' [] ?bad 1 [] =
     (''void f(const double* p, double* m) {\<newline>    m[0] = '',
      Some (runtime_error ''Codegen does not support if-then-else expressions.''))"
    by (simp add: CodeGenData_def CodeGenData_loop.simps put_int_0 build_empty VisitVariable_def
        VisitDivision_def eval2_def if_then_else_unsupported_def)
  from C9_determinism [where ord = RightFirst and ord' = LeftFirst
      and function_name = "''f''" and parameters = "[]" and data = ?bad and size' = 1
      and os = "[]"]
  have 5: "fst (CodeGenData RightFirst ''f'' [] ?bad 1 []) =
      fst (CodeGenData LeftFirst ''f'' [] ?bad 1 [])"
    by (rule conjunct1 [OF conjunct2 [OF conjunct2]])
  from 1 2 3 4 5 show ?thesis by (intro conjI)
qed

end
